theory Spec2Isabelle
  imports Main "HOL-Library.Word" "HOL-Library.AList"
begin

section \<open>JavaScript strings\<close>

text \<open>
  A JavaScript string is a sequence of UTF-16 code units, so a character is a 16-bit
  word.  ASCII literals of \<^verbatim>\<open>run.js\<close> are written \<open>js ''...''\<close>; the few
  non-ASCII literals of the source are given by their code units.
\<close>

type_synonym jschar = "16 word"
type_synonym jsstring = "jschar list"

definition js :: "string \<Rightarrow> jsstring" where
  "js s = map (\<lambda>c. of_nat (of_char c)) s"

text \<open>Truthiness of a string that may be \<^verbatim>\<open>undefined\<close> or \<^verbatim>\<open>null\<close>.\<close>

fun truthy :: "jsstring option \<Rightarrow> bool" where
  "truthy None = False"
| "truthy (Some s) = (s \<noteq> [])"

text \<open>\<^verbatim>\<open>Array.prototype.join\<close> on an array of strings.\<close>

fun js_join :: "jsstring \<Rightarrow> jsstring list \<Rightarrow> jsstring" where
  "js_join sep [] = []"
| "js_join sep [x] = x"
| "js_join sep (x # y # r) = x @ sep @ js_join sep (y # r)"

text \<open>Decimal rendering of a natural number, as a template literal does it.\<close>

function dec :: "nat \<Rightarrow> jsstring" where
  "dec n = (if n < 10 then [of_nat (48 + n)] else dec (n div 10) @ [of_nat (48 + n mod 10)])"
  by pat_completeness auto
termination
  by (relation "measure id") auto

declare dec.simps [simp del]

subsection \<open>Global regular-expression replace\<close>

text \<open>
  Every regular expression that \<^verbatim>\<open>run.js\<close> hands to \<^verbatim>\<open>String.prototype.replace\<close>
  is a fixed sequence of character tests with the \<^verbatim>\<open>g\<close> flag and no capture group:
  \<^verbatim>\<open>/&/g\<close>, \<^verbatim>\<open>/</g\<close>, \<^verbatim>\<open>/>/g\<close>, \<^verbatim>\<open>/\n/g\<close> and \<^verbatim>\<open>/\{\{name\}\}/gi\<close>.  Such a pattern is
  modelled as the list of its character tests.
\<close>

type_synonym pattern = "(jschar \<Rightarrow> bool) list"

fun matches_at :: "pattern \<Rightarrow> jsstring \<Rightarrow> bool" where
  "matches_at [] s = True"
| "matches_at (p # ps) [] = False"
| "matches_at (p # ps) (c # cs) = (p c \<and> matches_at ps cs)"

text \<open>
  The replacement argument is a string, so \<^verbatim>\<open>replace\<close> expands it with the
  abstract operation GetSubstitution of ECMAScript: \<^verbatim>\<open>$$\<close> is a dollar sign,
  \<^verbatim>\<open>$&\<close> the matched text, \<^verbatim>\<open>$`\<close> the text before the match and \<^verbatim>\<open>$'\<close> the
  text after it.  With no capture group, \<^verbatim>\<open>$1\<close>, \<^verbatim>\<open>$<\<close> and every other use of
  the dollar sign stand for themselves.
\<close>

fun getSubstitution :: "jsstring \<Rightarrow> jsstring \<Rightarrow> jsstring \<Rightarrow> jsstring \<Rightarrow> jsstring" where
  "getSubstitution matched pre post [] = []"
| "getSubstitution matched pre post [c] = [c]"
| "getSubstitution matched pre post (c # d # r) =
     (if c = 0x24 then
        (if d = 0x24 then 0x24 # getSubstitution matched pre post r
         else if d = 0x26 then matched @ getSubstitution matched pre post r
         else if d = 0x60 then pre @ getSubstitution matched pre post r
         else if d = 0x27 then post @ getSubstitution matched pre post r
         else c # getSubstitution matched pre post (d # r))
      else c # getSubstitution matched pre post (d # r))"

text \<open>
  \<open>replace_from pat repl pre s skip\<close> scans \<open>s\<close> from left to right; \<open>pre\<close> is the
  part of the subject already passed and \<open>skip\<close> the number of characters of the
  current match still to be consumed.  Matches are found leftmost first and do not
  overlap.  The patterns of the source are not empty, so no match is empty.
\<close>

fun replace_from :: "pattern \<Rightarrow> jsstring \<Rightarrow> jsstring \<Rightarrow> jsstring \<Rightarrow> nat \<Rightarrow> jsstring" where
  "replace_from pat repl pre [] skip = []"
| "replace_from pat repl pre (c # cs) (Suc k) = replace_from pat repl (pre @ [c]) cs k"
| "replace_from pat repl pre (c # cs) 0 =
     (if pat \<noteq> [] \<and> matches_at pat (c # cs)
      then getSubstitution (take (length pat) (c # cs)) pre (drop (length pat) (c # cs)) repl
           @ replace_from pat repl (pre @ [c]) cs (length pat - 1)
      else c # replace_from pat repl (pre @ [c]) cs 0)"

definition replace_g :: "pattern \<Rightarrow> jsstring \<Rightarrow> jsstring \<Rightarrow> jsstring" where
  "replace_g pat repl s = replace_from pat repl [] s 0"

section \<open>Notion block to HTML converter\<close>

record annotations =
  bold :: bool
  italic :: bool
  strikethrough :: bool
  underline :: bool
  code :: bool

record rich_text =
  plain_text :: jsstring
  annots :: "annotations option"
  href :: "jsstring option"

text \<open>\<^verbatim>\<open>rt.annotations || {}\<close>: a missing annotations object has no flag set.\<close>

definition flag :: "(annotations \<Rightarrow> bool) \<Rightarrow> rich_text \<Rightarrow> bool" where
  "flag f rt = (case annots rt of None \<Rightarrow> False | Some a \<Rightarrow> f a)"

text \<open>The body of the \<^verbatim>\<open>map\<close> callback of \<^verbatim>\<open>richTextToHtml\<close>, statement by statement.\<close>

definition runToHtml :: "rich_text \<Rightarrow> jsstring" where
  "runToHtml rt =
     (let text = replace_g [\<lambda>c. c = 0x26] (js ''&amp;'') (plain_text rt);
          text = replace_g [\<lambda>c. c = 0x3C] (js ''&lt;'') text;
          text = replace_g [\<lambda>c. c = 0x3E] (js ''&gt;'') text;
          text = replace_g [\<lambda>c. c = 0x0A] (js ''<br>'') text;
          text = (if flag code rt
                  then js ''<code style=\"background:#f4f4f4;padding:1px 5px;border-radius:3px;font-family:monospace\">''
                       @ text @ js ''</code>''
                  else text);
          text = (if flag bold rt then js ''<strong>'' @ text @ js ''</strong>'' else text);
          text = (if flag italic rt then js ''<em>'' @ text @ js ''</em>'' else text);
          text = (if flag strikethrough rt then js ''<s>'' @ text @ js ''</s>'' else text);
          text = (if flag underline rt then js ''<u>'' @ text @ js ''</u>'' else text);
          text = (if truthy (href rt)
                  then js ''<a href=\"'' @ the (href rt) @ js ''\" style=\"color:#0070f3\">''
                       @ text @ js ''</a>''
                  else text)
      in text)"

definition richTextToHtml :: "rich_text list \<Rightarrow> jsstring" where
  "richTextToHtml richTexts =
     (if richTexts = [] then [] else js_join [] (map runToHtml richTexts))"

text \<open>
  A block is its type tag and the payload \<^verbatim>\<open>block[type] || {}\<close>.  Of the payload the
  converter reads \<^verbatim>\<open>rich_text\<close> (an absent one counts as empty), \<^verbatim>\<open>checked\<close> (by
  truthiness) and, for an image, \<^verbatim>\<open>type\<close>, \<^verbatim>\<open>external.url\<close> and \<^verbatim>\<open>file.url\<close>.
\<close>

record block =
  btype :: jsstring
  rich :: "rich_text list"
  checked :: bool
  img_type :: "jsstring option"
  external_url :: "jsstring option"
  file_url :: "jsstring option"

record conv =
  lines :: "jsstring list"
  inUl :: bool
  inOl :: bool

definition push :: "jsstring \<Rightarrow> conv \<Rightarrow> conv" where
  "push l s = s\<lparr>lines := lines s @ [l]\<rparr>"

definition closeUl :: "conv \<Rightarrow> conv" where
  "closeUl s = (if inUl s then (push (js ''</ul>'') s)\<lparr>inUl := False\<rparr> else s)"

definition closeOl :: "conv \<Rightarrow> conv" where
  "closeOl s = (if inOl s then (push (js ''</ol>'') s)\<lparr>inOl := False\<rparr> else s)"

definition ul_open :: jsstring where
  "ul_open = js ''<ul style=\"margin:0 0 12px 0;padding-left:24px\">''"

definition ol_open :: jsstring where
  "ol_open = js ''<ol style=\"margin:0 0 12px 0;padding-left:24px\">''"

definition li :: "jsstring \<Rightarrow> jsstring" where
  "li html = js ''<li style=\"margin-bottom:4px\">'' @ html @ js ''</li>''"

text \<open>The \<^verbatim>\<open>switch\<close> of the loop body; the cases follow the source's order.\<close>

definition emit :: "block \<Rightarrow> jsstring \<Rightarrow> conv \<Rightarrow> conv" where
  "emit b html s =
     (if btype b = js ''paragraph'' then
        push (if html \<noteq> []
              then js ''<p style=\"margin:0 0 12px 0\">'' @ html @ js ''</p>''
              else js ''<p style=\"margin:0 0 12px 0\">&nbsp;</p>'') s
      else if btype b = js ''heading_1'' then
        push (js ''<h1 style=\"font-size:22px;font-weight:700;margin:0 0 12px 0\">'' @ html @ js ''</h1>'') s
      else if btype b = js ''heading_2'' then
        push (js ''<h2 style=\"font-size:18px;font-weight:700;margin:0 0 10px 0\">'' @ html @ js ''</h2>'') s
      else if btype b = js ''heading_3'' then
        push (js ''<h3 style=\"font-size:15px;font-weight:700;margin:0 0 8px 0\">'' @ html @ js ''</h3>'') s
      else if btype b = js ''bulleted_list_item'' then
        push (li html) (if \<not> inUl s then (push ul_open s)\<lparr>inUl := True\<rparr> else s)
      else if btype b = js ''numbered_list_item'' then
        push (li html) (if \<not> inOl s then (push ol_open s)\<lparr>inOl := True\<rparr> else s)
      else if btype b = js ''to_do'' then
        push (js ''<p style=\"margin:0 0 6px 0\">'' @ (if checked b then [0x2611] else [0x2610])
              @ js '' '' @ html @ js ''</p>'') s
      else if btype b = js ''quote'' then
        push (js ''<blockquote style=\"border-left:3px solid #ccc;margin:0 0 12px 0;padding:4px 0 4px 14px;color:#555\">''
              @ html @ js ''</blockquote>'') s
      else if btype b = js ''code'' then
        push (js ''<pre style=\"background:#f4f4f4;padding:12px;border-radius:4px;font-family:monospace;overflow-x:auto;margin:0 0 12px 0\"><code>''
              @ richTextToHtml (rich b) @ js ''</code></pre>'') s
      else if btype b = js ''divider'' then
        push (js ''<hr style=\"border:none;border-top:1px solid #e0e0e0;margin:16px 0\">'') s
      else if btype b = js ''image'' then
        (let url = (if img_type b = Some (js ''external'') then external_url b else file_url b)
         in if truthy url
            then push (js ''<img src=\"'' @ the url @ js ''\" style=\"max-width:100%;margin:0 0 12px 0\" alt=\"\">'') s
            else s)
      else s)"

definition step :: "conv \<Rightarrow> block \<Rightarrow> conv" where
  "step s b =
     (let html = richTextToHtml (rich b);
          s = (if btype b \<noteq> js ''bulleted_list_item'' then closeUl s else s);
          s = (if btype b \<noteq> js ''numbered_list_item'' then closeOl s else s)
      in emit b html s)"

definition blocksToHtml_lines :: "block list \<Rightarrow> jsstring list" where
  "blocksToHtml_lines blocks =
     lines (closeOl (closeUl (foldl step \<lparr>lines = [], inUl = False, inOl = False\<rparr> blocks)))"

definition blocksToHtml :: "block list \<Rightarrow> jsstring" where
  "blocksToHtml blocks = js_join (js [CHR 0x0A]) (blocksToHtml_lines blocks)"

section \<open>E-mail validation\<close>

text \<open>
  The class \<^verbatim>\<open>\s\<close> of ECMAScript: the white-space code points and the line
  terminators.
\<close>

definition is_space :: "jschar \<Rightarrow> bool" where
  "is_space c \<longleftrightarrow>
     c \<in> {0x09, 0x0A, 0x0B, 0x0C, 0x0D, 0x20, 0xA0, 0x1680, 0x2028, 0x2029, 0x202F, 0x205F,
          0x3000, 0xFEFF} \<or> (0x2000 \<le> c \<and> c \<le> 0x200A)"

text \<open>
  The pattern of \<^verbatim>\<open>isValidFormat\<close> is anchored at both ends and is a sequence of
  items, each a character test or a character test under \<^verbatim>\<open>+\<close>.
\<close>

datatype item = One "jschar \<Rightarrow> bool" | Plus "jschar \<Rightarrow> bool"

fun rx_match :: "item list \<Rightarrow> jsstring \<Rightarrow> bool" where
  "rx_match [] s = (s = [])"
| "rx_match (One p # r) [] = False"
| "rx_match (One p # r) (c # cs) = (p c \<and> rx_match r cs)"
| "rx_match (Plus p # r) [] = False"
| "rx_match (Plus p # r) (c # cs) = (p c \<and> (rx_match (Plus p # r) cs \<or> rx_match r cs))"

definition not_space_at :: "jschar \<Rightarrow> bool" where
  "not_space_at c \<longleftrightarrow> \<not> is_space c \<and> c \<noteq> 0x40"

definition isValidFormat :: "jsstring \<Rightarrow> bool" where
  "isValidFormat email =
     rx_match [Plus not_space_at, One (\<lambda>c. c = 0x40), Plus not_space_at,
               One (\<lambda>c. c = 0x2E), Plus not_space_at] email"

text \<open>\<^verbatim>\<open>String.prototype.split\<close> with a one-character separator.\<close>

fun split_on :: "jschar \<Rightarrow> jsstring \<Rightarrow> jsstring list" where
  "split_on sep [] = [[]]"
| "split_on sep (c # cs) =
     (if c = sep then [] # split_on sep cs
      else (case split_on sep cs of [] \<Rightarrow> [[c]] | p # ps \<Rightarrow> (c # p) # ps))"

section \<open>The outside world\<close>

datatype js_error = Error (message: jsstring)

text \<open>What \<^verbatim>\<open>getProp\<close> returns: a string, a boolean or \<^verbatim>\<open>null\<close>.\<close>

datatype propval = PStr jsstring | PBool bool | PNull

fun truthy_val :: "propval \<Rightarrow> bool" where
  "truthy_val (PStr s) = (s \<noteq> [])"
| "truthy_val (PBool b) = b"
| "truthy_val PNull = False"

fun to_string :: "propval \<Rightarrow> jsstring" where
  "to_string (PStr s) = s"
| "to_string (PBool b) = (if b then js ''true'' else js ''false'')"
| "to_string PNull = js ''null''"

definition js_or :: "propval \<Rightarrow> propval \<Rightarrow> propval" where
  "js_or v d = (if truthy_val v then v else d)"

datatype property =
    Title "rich_text list"
  | Rich_text "rich_text list"
  | Email "jsstring option"
  | Checkbox bool
  | Select "jsstring option"
  | Relation "jsstring list"
  | Other_prop

record page =
  page_id :: jsstring
  properties :: "(jsstring \<times> property) list"

datatype patch_value =
    Patch_rich_text jsstring
  | Patch_select jsstring
  | Patch_date jsstring
  | Patch_checkbox bool

text \<open>
  Every call that leaves the process, every reading of the clock and every message on
  the console is recorded as an event, in the order of execution.  A console message is
  recorded by the values it prints, not by its rendered text.
\<close>

datatype event =
    DateNow
  | NewDate
  | ResolveMx jsstring
  | TokenExchange "jsstring option" jsstring
  | SendMail jsstring propval propval jsstring jsstring
  | PagesRetrieve propval
  | BlocksList propval "jsstring option"
  | PagesUpdate jsstring "(jsstring \<times> patch_value) list"
  | DatabasesQuery "jsstring option"
  | Sleep int
  | Log jsstring "jsstring option" jsstring
  | RotationNotice jsstring
  | ConsoleMissing "jsstring list"
  | ConsoleUnreachable jsstring
  | ConsoleNoPending
  | ConsoleSummary nat nat
  | ConsoleFatal jsstring

record token_response =
  ok :: bool
  access_token :: "jsstring option"
  expires_in :: "int option"
  refresh_token :: "jsstring option"
  error_description :: "jsstring option"
  error :: "jsstring option"

record send_response =
  send_ok :: bool
  status :: nat
  error_message :: "jsstring option"

record block_page =
  results :: "block list"
  has_more :: bool
  next_cursor :: "jsstring option"

record COL =
  COL_name :: jsstring
  COL_email :: jsstring
  COL_send :: jsstring
  COL_template :: jsstring
  COL_validationStatus :: jsstring
  COL_sendStatus :: jsstring
  COL_sentAt :: jsstring

text \<open>
  The world answers each call from the history of events so far, whose last event is
  the call itself; so an answer may depend on everything the process did before.
\<close>

record world =
  env :: "jsstring \<Rightarrow> jsstring option"
  col :: COL
  SEND_DELAY_MS :: int
  now :: "event list \<Rightarrow> int"
  toISOString :: "event list \<Rightarrow> jsstring"
  resolveMx :: "event list \<Rightarrow> js_error + (jsstring \<times> nat) list option"
  token_fetch :: "event list \<Rightarrow> js_error + token_response"
  sendMail_fetch :: "event list \<Rightarrow> js_error + send_response"
  pages_retrieve :: "event list \<Rightarrow> js_error + page"
  blocks_children_list :: "event list \<Rightarrow> js_error + block_page"
  pages_update :: "event list \<Rightarrow> js_error option"
  databases_query :: "event list \<Rightarrow> js_error + page list"

text \<open>
  The module-level variables of \<^verbatim>\<open>run.js\<close> and the history.  \<open>tokenExpiresAt\<close> is
  \<open>None\<close> when the source's arithmetic yields \<^verbatim>\<open>NaN\<close> (no \<^verbatim>\<open>expires_in\<close>).
\<close>

record state =
  cachedToken :: "jsstring option"
  tokenExpiresAt :: "int option"
  sentCount :: nat
  failedCount :: nat
  trace :: "event list"

definition init :: state where
  "init = \<lparr>cachedToken = None, tokenExpiresAt = Some 0, sentCount = 0, failedCount = 0, trace = []\<rparr>"

definition emit_ev :: "event \<Rightarrow> state \<Rightarrow> state" where
  "emit_ev e st = st\<lparr>trace := trace st @ [e]\<rparr>"

definition log :: "jsstring \<Rightarrow> jsstring option \<Rightarrow> jsstring \<Rightarrow> state \<Rightarrow> state" where
  "log type email msg st = emit_ev (Log type email msg) st"

section \<open>Microsoft Graph authentication\<close>

definition getGraphToken :: "world \<Rightarrow> state \<Rightarrow> (js_error + jsstring) \<times> state" where
  "getGraphToken w st =
     (let st = (if truthy (cachedToken st) then emit_ev DateNow st else st)
      in if truthy (cachedToken st)
            \<and> (case tokenExpiresAt st of None \<Rightarrow> False | Some t \<Rightarrow> now w (trace st) < t)
         then (Inr (the (cachedToken st)), st)
         else
           (let refreshToken = env w (js ''OUTLOOK_REFRESH_TOKEN'')
            in if \<not> truthy refreshToken
               then (Inl (Error (js ''OUTLOOK_REFRESH_TOKEN is not set.'' @ [0x0A]
                                 @ js ''Run: node scripts/get-token.js'' @ [0x0A]
                                 @ js ''Then add the token to your GitHub Secrets.'')), st)
               else
                 (let st = emit_ev (TokenExchange (env w (js ''AZURE_CLIENT_ID'')) (the refreshToken)) st
                  in case token_fetch w (trace st) of
                       Inl e \<Rightarrow> (Inl e, st)
                     | Inr data \<Rightarrow>
                         if \<not> ok data \<or> \<not> truthy (access_token data)
                         then (Inl (Error (if truthy (error_description data) then the (error_description data)
                                           else if truthy (error data) then the (error data)
                                           else js ''Token refresh failed'')), st)
                         else
                           (let st = emit_ev DateNow st;
                                st = st\<lparr>cachedToken := access_token data,
                                        tokenExpiresAt :=
                                          (case expires_in data of None \<Rightarrow> None
                                           | Some e \<Rightarrow> Some (now w (trace st) + (e - 60) * 1000))\<rparr>;
                                st = (if truthy (refresh_token data) \<and> refresh_token data \<noteq> refreshToken
                                      then emit_ev (RotationNotice (the (refresh_token data))) st else st)
                            in (Inr (the (cachedToken st)), st)))))"

section \<open>Sending through the Graph API\<close>

definition sendEmailViaGraph ::
  "world \<Rightarrow> propval \<Rightarrow> propval \<Rightarrow> jsstring \<Rightarrow> jsstring \<Rightarrow> state \<Rightarrow> js_error option \<times> state" where
  "sendEmailViaGraph w toEmail toName subject htmlBody st =
     (case getGraphToken w st of
        (Inl e, st) \<Rightarrow> (Some e, st)
      | (Inr token, st) \<Rightarrow>
          (let st = emit_ev (SendMail token toEmail toName subject htmlBody) st
           in case sendMail_fetch w (trace st) of
                Inl e \<Rightarrow> (Some e, st)
              | Inr res \<Rightarrow>
                  if \<not> send_ok res
                  then (Some (Error (js ''Graph API: ''
                          @ (if truthy (error_message res) then the (error_message res)
                             else js ''HTTP '' @ dec (status res)))), st)
                  else (None, st)))"

section \<open>E-mail validation against the resolver\<close>

datatype validation = Valid | Invalid (reason: jsstring)

text \<open>
  \<^verbatim>\<open>email.split("@")[1]\<close> is \<^verbatim>\<open>undefined\<close> when the address has no \<^verbatim>\<open>@\<close>; the resolver
  then rejects its argument inside the \<^verbatim>\<open>try\<close> and the template literal prints
  \<^verbatim>\<open>undefined\<close>.
\<close>

definition validateEmail :: "world \<Rightarrow> jsstring \<Rightarrow> state \<Rightarrow> validation \<times> state" where
  "validateEmail w email st =
     (if \<not> isValidFormat email then (Invalid (js ''Invalid email format''), st)
      else
        (case split_on 0x40 email of
           _ # domain # _ \<Rightarrow>
             (let st = emit_ev (ResolveMx domain) st
              in case resolveMx w (trace st) of
                   Inl e \<Rightarrow> (Invalid (js ''No mail server found for '' @ domain), st)
                 | Inr None \<Rightarrow> (Invalid (js ''No mail server found for '' @ domain), st)
                 | Inr (Some records) \<Rightarrow>
                     if records = [] then (Invalid (js ''No mail server found for '' @ domain), st)
                     else (Valid, st))
         | _ \<Rightarrow> (Invalid (js ''No mail server found for '' @ js ''undefined''), st)))"

section \<open>Notion helpers\<close>

definition first_plain_text :: "rich_text list \<Rightarrow> jsstring" where
  "first_plain_text rts = (case rts of [] \<Rightarrow> [] | rt # _ \<Rightarrow> plain_text rt)"

definition getProp :: "page \<Rightarrow> jsstring \<Rightarrow> propval" where
  "getProp pg colName =
     (case map_of (properties pg) colName of
        None \<Rightarrow> PNull
      | Some (Title rts) \<Rightarrow> PStr (first_plain_text rts)
      | Some (Rich_text rts) \<Rightarrow> PStr (first_plain_text rts)
      | Some (Email e) \<Rightarrow> PStr (case e of None \<Rightarrow> [] | Some s \<Rightarrow> s)
      | Some (Checkbox b) \<Rightarrow> PBool b
      | Some (Select n) \<Rightarrow> PStr (case n of None \<Rightarrow> [] | Some s \<Rightarrow> s)
      | Some (Relation ids) \<Rightarrow> (case ids of [] \<Rightarrow> PNull | i # _ \<Rightarrow> if i = [] then PNull else PStr i)
      | Some Other_prop \<Rightarrow> PNull)"

text \<open>The object literal handed to \<^verbatim>\<open>updateRow\<close>; an absent key is \<open>None\<close>.\<close>

record updates =
  validationStatus :: "jsstring option"
  sendStatus :: "jsstring option"
  sentAt :: "jsstring option"
  send :: "bool option"

text \<open>
  The \<^verbatim>\<open>properties\<close> object built by \<^verbatim>\<open>updateRow\<close>, as the list of its keys and values
  in insertion order; assigning to a key that is already there replaces its value.
\<close>

definition updateRow_properties :: "COL \<Rightarrow> updates \<Rightarrow> (jsstring \<times> patch_value) list" where
  "updateRow_properties c u =
     (let ps = [];
          ps = (case validationStatus u of None \<Rightarrow> ps
                | Some v \<Rightarrow> AList.update (COL_validationStatus c) (Patch_rich_text v) ps);
          ps = (case sendStatus u of None \<Rightarrow> ps
                | Some v \<Rightarrow> AList.update (COL_sendStatus c) (Patch_select v) ps);
          ps = (case sentAt u of None \<Rightarrow> ps
                | Some v \<Rightarrow> AList.update (COL_sentAt c) (Patch_date v) ps);
          ps = (case send u of None \<Rightarrow> ps
                | Some v \<Rightarrow> AList.update (COL_send c) (Patch_checkbox v) ps)
      in ps)"

definition updateRow :: "world \<Rightarrow> jsstring \<Rightarrow> updates \<Rightarrow> state \<Rightarrow> js_error option \<times> state" where
  "updateRow w pageId u st =
     (let st = emit_ev (PagesUpdate pageId (updateRow_properties (col w) u)) st
      in (pages_update w (trace st), st))"

section \<open>Template retrieval\<close>

record template =
  subject :: jsstring
  html :: jsstring

text \<open>
  The \<^verbatim>\<open>do ... while (cursor)\<close> loop of \<^verbatim>\<open>getTemplate\<close>.  The store decides how many
  pages there are, so the loop need not end: the result \<open>None\<close> stands for a loop
  that never returns.
\<close>

partial_function (option) list_blocks ::
  "world \<Rightarrow> propval \<Rightarrow> jsstring option \<Rightarrow> block list \<Rightarrow> state \<Rightarrow> ((js_error + block list) \<times> state) option" where
  "list_blocks w templatePageId cursor blocks st =
     (let st = emit_ev (BlocksList templatePageId cursor) st
      in case blocks_children_list w (trace st) of
           Inl e \<Rightarrow> Some (Inl e, st)
         | Inr res \<Rightarrow>
             (let blocks = blocks @ results res;
                  cursor = (if has_more res then next_cursor res else None)
              in if truthy cursor then list_blocks w templatePageId cursor blocks st
                 else Some (Inr blocks, st)))"

declare list_blocks.simps [code]

definition getTemplate :: "world \<Rightarrow> propval \<Rightarrow> state \<Rightarrow> ((js_error + template) \<times> state) option" where
  "getTemplate w templatePageId st =
     (let st = emit_ev (PagesRetrieve templatePageId) st
      in case pages_retrieve w (trace st) of
           Inl e \<Rightarrow> Some (Inl e, st)
         | Inr pg \<Rightarrow>
             (let subj = (case List.find (\<lambda>p. case p of Title _ \<Rightarrow> True | _ \<Rightarrow> False)
                                         (map snd (properties pg)) of
                            Some (Title (rt # _)) \<Rightarrow>
                              (if plain_text rt \<noteq> [] then plain_text rt else js ''No subject'')
                          | _ \<Rightarrow> js ''No subject'')
              in case list_blocks w templatePageId None [] st of
                   None \<Rightarrow> None
                 | Some (Inl e, st) \<Rightarrow> Some (Inl e, st)
                 | Some (Inr blocks, st) \<Rightarrow>
                     Some (Inr \<lparr>subject = subj, html = blocksToHtml blocks\<rparr>, st)))"

section \<open>Core processor\<close>

text \<open>
  The pattern \<^verbatim>\<open>/\{\{name\}\}/gi\<close>.  Without the \<^verbatim>\<open>u\<close> flag, case-insensitive
  matching compares the upper-case forms of two code units, and never lets a
  non-ASCII unit stand for an ASCII one; so a pattern character that is ASCII is
  matched by the ASCII units with the same upper-case form.
\<close>

definition ascii_upper :: "jschar \<Rightarrow> jschar" where
  "ascii_upper c = (if 0x61 \<le> c \<and> c \<le> 0x7A then c - 0x20 else c)"

definition ci :: "jschar \<Rightarrow> jschar \<Rightarrow> bool" where
  "ci p c \<longleftrightarrow> c < 0x80 \<and> ascii_upper c = ascii_upper p"

definition name_pattern :: pattern where
  "name_pattern = map ci (js ''{{name}}'')"

text \<open>
  The statements \<^verbatim>\<open>await updateRow(pageId, u); failedCount++; return;\<close> that end each
  failing path: the counter moves only when the update did not throw.
\<close>

definition fail_row :: "world \<Rightarrow> jsstring \<Rightarrow> updates \<Rightarrow> state \<Rightarrow> js_error option \<times> state" where
  "fail_row w pageId u st =
     (case updateRow w pageId u st of
        (Some e, st) \<Rightarrow> (Some e, st)
      | (None, st) \<Rightarrow> (None, st\<lparr>failedCount := failedCount st + 1\<rparr>))"

text \<open>The \<^verbatim>\<open>catch\<close> block of the send.\<close>

definition send_failed :: "world \<Rightarrow> jsstring \<Rightarrow> propval \<Rightarrow> js_error \<Rightarrow> state \<Rightarrow> js_error option \<times> state" where
  "send_failed w pageId email err st =
     fail_row w pageId
       \<lparr>validationStatus = Some (js ''Send error: '' @ message err), sendStatus = Some (js ''Failed''),
        sentAt = None, send = Some False\<rparr>
       (log (js ''error'') (Some (to_string email)) (js ''Send failed: '' @ message err) st)"

text \<open>The \<^verbatim>\<open>try\<close> block of the send with its \<^verbatim>\<open>catch\<close>.\<close>

definition send_row ::
  "world \<Rightarrow> jsstring \<Rightarrow> propval \<Rightarrow> propval \<Rightarrow> jsstring \<Rightarrow> jsstring \<Rightarrow> state \<Rightarrow> js_error option \<times> state" where
  "send_row w pageId email name subj htmlBody st =
     (case sendEmailViaGraph w email name subj htmlBody st of
        (Some err, st) \<Rightarrow> send_failed w pageId email err st
      | (None, st) \<Rightarrow>
          (let st = log (js ''success'') (Some (to_string email))
                      (js ''Sent to '' @ to_string name @ js '' '' @ [0x2014] @ js '' \"'' @ subj @ js ''\"'') st;
               st = emit_ev NewDate st
           in case updateRow w pageId
                     \<lparr>validationStatus = None, sendStatus = Some (js ''Sent''),
                      sentAt = Some (toISOString w (trace st)), send = Some False\<rparr> st of
                (Some err, st) \<Rightarrow> send_failed w pageId email err st
              | (None, st) \<Rightarrow> (None, st\<lparr>sentCount := sentCount st + 1\<rparr>)))"

text \<open>
  \<open>processRow\<close> returns \<open>Some (None, st)\<close> when the source returns, \<open>Some (Some e, st)\<close>
  when it throws \<open>e\<close>, and \<open>None\<close> when it never returns.
\<close>

definition processRow :: "world \<Rightarrow> page \<Rightarrow> state \<Rightarrow> (js_error option \<times> state) option" where
  "processRow w pg st =
     (let pageId = page_id pg;
          name = js_or (getProp pg (COL_name (col w))) (PStr (js ''there''));
          email = js_or (getProp pg (COL_email (col w))) (PStr []);
          templatePageId = getProp pg (COL_template (col w))
      in if \<not> truthy_val email then
           Some (fail_row w pageId
                   \<lparr>validationStatus = Some (js ''No email address''), sendStatus = Some (js ''Failed''),
                    sentAt = None, send = Some False\<rparr>
                   (log (js ''error'') (Some [0x2014])
                      (js ''Skipped '' @ [0x2014] @ js '' no email address'') st))
         else if \<not> truthy_val templatePageId then
           Some (fail_row w pageId
                   \<lparr>validationStatus = Some (js ''No template linked''), sendStatus = Some (js ''Failed''),
                    sentAt = None, send = Some False\<rparr>
                   (log (js ''error'') (Some (to_string email))
                      (js ''Skipped '' @ [0x2014] @ js '' no template linked'') st))
         else
           (case validateEmail w (to_string email) st of
              (Invalid r, st) \<Rightarrow>
                Some (fail_row w pageId
                        \<lparr>validationStatus = Some ([0x274C] @ js '' '' @ r), sendStatus = Some (js ''Failed''),
                         sentAt = None, send = Some False\<rparr>
                        (log (js ''error'') (Some (to_string email)) (js ''Validation failed: '' @ r) st))
            | (Valid, st) \<Rightarrow>
                (case getTemplate w templatePageId st of
                   None \<Rightarrow> None
                 | Some (Inl err, st) \<Rightarrow>
                     Some (fail_row w pageId
                             \<lparr>validationStatus = Some (js ''Template error: '' @ message err),
                              sendStatus = Some (js ''Failed''), sentAt = None, send = Some False\<rparr>
                             (log (js ''error'') (Some (to_string email))
                                (js ''Template error: '' @ message err) st))
                 | Some (Inr tpl, st) \<Rightarrow>
                     (let subj = replace_g name_pattern (to_string name) (subject tpl);
                          htmlBody = replace_g name_pattern (to_string name) (html tpl)
                      in case updateRow w pageId
                                \<lparr>validationStatus = Some ([0x2705] @ js '' Passed''),
                                 sendStatus = Some (js ''Sending...''), sentAt = None, send = None\<rparr> st of
                           (Some e, st) \<Rightarrow> Some (Some e, st)
                         | (None, st) \<Rightarrow> Some (send_row w pageId email name subj htmlBody st)))))"

section \<open>Main\<close>

definition required :: "jsstring list" where
  "required = [js ''NOTION_API_KEY'', js ''NOTION_DATABASE_ID'', js ''AZURE_CLIENT_ID'',
               js ''OUTLOOK_REFRESH_TOKEN'']"

text \<open>The \<^verbatim>\<open>for\<close> loop of \<^verbatim>\<open>main\<close>: a pause follows every row but the last.\<close>

fun rows_loop :: "world \<Rightarrow> page list \<Rightarrow> state \<Rightarrow> (js_error option \<times> state) option" where
  "rows_loop w [] st = Some (None, st)"
| "rows_loop w (r # rs) st =
     (case processRow w r st of
        None \<Rightarrow> None
      | Some (Some e, st) \<Rightarrow> Some (Some e, st)
      | Some (None, st) \<Rightarrow>
          rows_loop w rs (if rs \<noteq> [] then emit_ev (Sleep (SEND_DELAY_MS w)) st else st))"

text \<open>
  \<open>main\<close> yields the exit code of the process and the final state.  An error that
  leaves \<^verbatim>\<open>main\<close> is caught by the handler at the end of the file, which exits with 1;
  a \<^verbatim>\<open>main\<close> that returns lets the process end with code 0.
\<close>

definition main :: "world \<Rightarrow> (nat \<times> state) option" where
  "main w =
     (let st = init;
          missing = filter (\<lambda>k. \<not> truthy (env w k)) required
      in if missing \<noteq> [] then Some (1, emit_ev (ConsoleMissing missing) st)
         else
           (let st = emit_ev (DatabasesQuery (env w (js ''NOTION_DATABASE_ID''))) st
            in case databases_query w (trace st) of
                 Inl err \<Rightarrow> Some (1, emit_ev (ConsoleUnreachable (message err)) st)
               | Inr rows \<Rightarrow>
                   if rows = [] then Some (0, emit_ev ConsoleNoPending st)
                   else
                     (case rows_loop w rows
                             (log (js ''info'') None
                                (js ''Found '' @ dec (length rows) @ js '' row(s) to process'') st) of
                        None \<Rightarrow> None
                      | Some (Some err, st) \<Rightarrow> Some (1, emit_ev (ConsoleFatal (message err)) st)
                      | Some (None, st) \<Rightarrow>
                          (let st = emit_ev (ConsoleSummary (sentCount st) (failedCount st)) st
                           in Some (if failedCount st > 0 then 1 else 0, st)))))"

section \<open>Definitions used to state the properties\<close>

subsection \<open>Inline text\<close>

text \<open>
  Escaping and wrapping as the specification words them: each special character is
  replaced wherever it stands, one character after the other, and the tags are nested
  from the code tag outwards.
\<close>

definition subst_char :: "jschar \<Rightarrow> jsstring \<Rightarrow> jsstring \<Rightarrow> jsstring" where
  "subst_char c r s = concat (map (\<lambda>x. if x = c then r else [x]) s)"

definition spec_escape :: "jsstring \<Rightarrow> jsstring" where
  "spec_escape s =
     subst_char 0x0A (js ''<br>'') (subst_char 0x3E (js ''&gt;'')
       (subst_char 0x3C (js ''&lt;'') (subst_char 0x26 (js ''&amp;'') s)))"

definition wrap :: "bool \<Rightarrow> jsstring \<Rightarrow> jsstring \<Rightarrow> jsstring \<Rightarrow> jsstring" where
  "wrap on opening closing t = (if on then opening @ t @ closing else t)"

definition spec_run :: "rich_text \<Rightarrow> jsstring" where
  "spec_run rt =
     wrap (truthy (href rt)) (js ''<a href=\"'' @ the (href rt) @ js ''\" style=\"color:#0070f3\">'') (js ''</a>'')
       (wrap (flag underline rt) (js ''<u>'') (js ''</u>'')
         (wrap (flag strikethrough rt) (js ''<s>'') (js ''</s>'')
           (wrap (flag italic rt) (js ''<em>'') (js ''</em>'')
             (wrap (flag bold rt) (js ''<strong>'') (js ''</strong>'')
               (wrap (flag code rt)
                  (js ''<code style=\"background:#f4f4f4;padding:1px 5px;border-radius:3px;font-family:monospace\">'')
                  (js ''</code>'')
                  (spec_escape (plain_text rt)))))))"

definition esc1 :: "jschar \<Rightarrow> jsstring" where
  "esc1 c = (if c = 0x26 then js ''&amp;'' else if c = 0x3C then js ''&lt;''
             else if c = 0x3E then js ''&gt;'' else if c = 0x0A then js ''<br>'' else [c])"

subsection \<open>List grouping\<close>

text \<open>
  The grouping as the specification words it: a maximal run of bulleted items is one
  unordered list, a maximal run of numbered items one ordered list, and every other
  block stands alone with the markup the converter gives it.
\<close>

definition is_bullet :: "block \<Rightarrow> bool" where
  "is_bullet b \<longleftrightarrow> btype b = js ''bulleted_list_item''"

definition is_number :: "block \<Rightarrow> bool" where
  "is_number b \<longleftrightarrow> btype b = js ''numbered_list_item''"

definition item :: "block \<Rightarrow> jsstring" where
  "item b = li (richTextToHtml (rich b))"

definition own_markup :: "block \<Rightarrow> jsstring list" where
  "own_markup b = lines (emit b (richTextToHtml (rich b)) \<lparr>lines = [], inUl = False, inOl = False\<rparr>)"

function group_lines :: "block list \<Rightarrow> jsstring list" where
  "group_lines [] = []"
| "group_lines (b # bs) =
     (if is_bullet b then
        [ul_open] @ map item (b # takeWhile is_bullet bs) @ [js ''</ul>'']
        @ group_lines (dropWhile is_bullet bs)
      else if is_number b then
        [ol_open] @ map item (b # takeWhile is_number bs) @ [js ''</ol>'']
        @ group_lines (dropWhile is_number bs)
      else own_markup b @ group_lines bs)"
  by pat_completeness auto
termination
  by (relation "measure length") (auto simp: length_dropWhile_le less_Suc_eq_le)

declare group_lines.simps [simp del]

definition fin :: "conv \<Rightarrow> jsstring list" where
  "fin s = lines (closeOl (closeUl s))"

text \<open>
  A sequence of emitted lines is balanced when no list container is opened inside
  another, each one is closed by its own closing tag, and none is left open.
\<close>

fun balanced :: "jsstring option \<Rightarrow> jsstring list \<Rightarrow> bool" where
  "balanced opened [] = (opened = None)"
| "balanced opened (l # ls) =
     (if l = ul_open then opened = None \<and> balanced (Some (js ''</ul>'')) ls
      else if l = ol_open then opened = None \<and> balanced (Some (js ''</ol>'')) ls
      else if l = js ''</ul>'' \<or> l = js ''</ol>'' then opened = Some l \<and> balanced None ls
      else balanced opened ls)"

definition is_tag :: "jsstring \<Rightarrow> bool" where
  "is_tag l \<longleftrightarrow> l = ul_open \<or> l = ol_open \<or> l = js ''</ul>'' \<or> l = js ''</ol>''"

text \<open>A block with one unannotated run of text, for use in examples.\<close>

definition sample_block :: "string \<Rightarrow> string \<Rightarrow> block" where
  "sample_block ty txt =
     \<lparr>btype = js ty, rich = [\<lparr>plain_text = js txt, annots = None, href = None\<rparr>], checked = False,
      img_type = None, external_url = None, file_url = None\<rparr>"

subsection \<open>Placeholder substitution\<close>

text \<open>
  Replacement as the specification words it: every occurrence of the pattern, found
  leftmost first, is replaced by the given text as it stands.
\<close>

fun replace_literal :: "pattern \<Rightarrow> jsstring \<Rightarrow> jsstring \<Rightarrow> nat \<Rightarrow> jsstring" where
  "replace_literal pat repl [] skip = []"
| "replace_literal pat repl (c # cs) (Suc k) = replace_literal pat repl cs k"
| "replace_literal pat repl (c # cs) 0 =
     (if pat \<noteq> [] \<and> matches_at pat (c # cs)
      then repl @ replace_literal pat repl cs (length pat - 1)
      else c # replace_literal pat repl cs 0)"

subsection \<open>Reading the history\<close>

fun is_exchange :: "event \<Rightarrow> bool" where
  "is_exchange (TokenExchange c r) = True"
| "is_exchange e = False"

definition exchanges :: "event list \<Rightarrow> nat" where
  "exchanges tr = length (filter is_exchange tr)"

text \<open>
  The events of a send: reading the clock for the token cache, asking the token
  endpoint for a token, and calling the mail endpoint.
\<close>

fun is_send_attempt :: "event \<Rightarrow> bool" where
  "is_send_attempt (TokenExchange c r) = True"
| "is_send_attempt (SendMail t e n s h) = True"
| "is_send_attempt DateNow = True"
| "is_send_attempt e = False"

text \<open>
  A step from \<open>st\<close> to \<open>st'\<close> is quiet when it leaves the counters and the token cache
  alone and adds no event of a send to the history.
\<close>

definition quiet :: "state \<Rightarrow> state \<Rightarrow> bool" where
  "quiet st st' \<longleftrightarrow>
     sentCount st' = sentCount st \<and> failedCount st' = failedCount st \<and>
     cachedToken st' = cachedToken st \<and> tokenExpiresAt st' = tokenExpiresAt st \<and>
     (\<exists>evs. trace st' = trace st @ evs \<and> (\<forall>e \<in> set evs. \<not> is_send_attempt e))"

text \<open>
  What one row does to the counters: a row that returns has moved exactly one of them
  by one, a row that throws has moved none.
\<close>

definition row_step :: "state \<Rightarrow> js_error option \<times> state \<Rightarrow> bool" where
  "row_step st r \<longleftrightarrow>
     (case r of
        (None, st') \<Rightarrow>
          (sentCount st' = Suc (sentCount st) \<and> failedCount st' = failedCount st) \<or>
          (sentCount st' = sentCount st \<and> failedCount st' = Suc (failedCount st))
      | (Some e, st') \<Rightarrow> sentCount st' = sentCount st \<and> failedCount st' = failedCount st)"

subsection \<open>A sample run\<close>

text \<open>The column names that \<^verbatim>\<open>run.js\<close> uses when the environment names none.\<close>

definition default_COL :: COL where
  "default_COL =
     \<lparr>COL_name = js ''Name'', COL_email = js ''Email'', COL_send = js ''Send'',
      COL_template = js ''Template'', COL_validationStatus = js ''Validation Status'',
      COL_sendStatus = js ''Send Status'', COL_sentAt = js ''Sent At''\<rparr>"

definition sample_row :: "string \<Rightarrow> string \<Rightarrow> string \<Rightarrow> page" where
  "sample_row pid nm em =
     \<lparr>page_id = js pid,
      properties =
        [(js ''Name'', Title [\<lparr>plain_text = js nm, annots = None, href = None\<rparr>]),
         (js ''Email'', Email (Some (js em))),
         (js ''Template'', Relation [js ''tpl'']),
         (js ''Send'', Checkbox True)]\<rparr>"

definition sample_template :: page where
  "sample_template =
     \<lparr>page_id = js ''tpl'',
      properties = [(js ''Title'', Title [\<lparr>plain_text = js ''Hi {{Name}}'', annots = None, href = None\<rparr>])]\<rparr>"

text \<open>
  A world with all secrets set and three eligible rows, in which every call succeeds
  except the send to the second row; the third row has no recipient name.
\<close>

definition sample_world :: world where
  "sample_world =
     \<lparr>env = (\<lambda>k. if k \<in> set required then Some (js ''secret'') else None),
      col = default_COL,
      SEND_DELAY_MS = 3000,
      now = (\<lambda>tr. int (length tr)),
      toISOString = (\<lambda>tr. js ''2024-01-01T00:00:00.000Z''),
      resolveMx = (\<lambda>tr. Inr (Some [(js ''mx.example.com'', 10)])),
      token_fetch = (\<lambda>tr. Inr \<lparr>ok = True, access_token = Some (js ''token''), expires_in = Some 3600,
                                refresh_token = None, error_description = None, error = None\<rparr>),
      sendMail_fetch =
        (\<lambda>tr. case rev tr of
                 SendMail t (PStr e) n s h # _ \<Rightarrow>
                   if e = js ''bob@example.com''
                   then Inr \<lparr>send_ok = False, status = 403, error_message = Some (js ''denied'')\<rparr>
                   else Inr \<lparr>send_ok = True, status = 202, error_message = None\<rparr>
               | _ \<Rightarrow> Inl (Error (js ''no request''))),
      pages_retrieve = (\<lambda>tr. Inr sample_template),
      blocks_children_list =
        (\<lambda>tr. Inr \<lparr>results = [sample_block ''paragraph'' ''Dear {{name}}''], has_more = False,
                    next_cursor = None\<rparr>),
      pages_update = (\<lambda>tr. None),
      databases_query =
        (\<lambda>tr. Inr [sample_row ''row1'' ''Ann'' ''ann@example.com'',
                    sample_row ''row2'' ''Bob'' ''bob@example.com'',
                    sample_row ''row3'' [] ''cy@example.com''])\<rparr>"

section \<open>Strings\<close>

lemma of_char_small: "(of_char c :: nat) < 256"
proof -
  have "(of_char c :: nat) mod 256 < 256" by (rule mod_less_divisor) simp
  then show ?thesis by (simp only: of_char_mod_256)
qed

lemma js_char_inj: "inj (\<lambda>c. of_nat (of_char c) :: 16 word)"
proof (rule injI)
  fix a b :: char
  assume "(of_nat (of_char a) :: 16 word) = of_nat (of_char b)"
  then have "unat (of_nat (of_char a) :: 16 word) = unat (of_nat (of_char b) :: 16 word)"
    by (rule arg_cong)
  then have "(of_char a :: nat) mod 2 ^ 16 = of_char b mod 2 ^ 16"
    by (simp only: unat_of_nat len_of_numeral_defs) simp
  moreover have "(of_char a :: nat) < 2 ^ 16"
    by (rule less_trans [OF of_char_small]) simp
  moreover have "(of_char b :: nat) < 2 ^ 16"
    by (rule less_trans [OF of_char_small]) simp
  ultimately have "(of_char a :: nat) = of_char b" by (simp only: mod_less)
  then show "a = b" by (rule of_char_eqI)
qed

lemma js_inj [simp]: "(js a = js b) = (a = b)"
  unfolding js_def by (rule inj_map_eq_map [OF js_char_inj])

lemma js_append: "js (a @ b) = js a @ js b" by (simp add: js_def)

lemma js_Nil_iff [simp]: "(js s = []) = (s = [])" by (simp add: js_def)

section \<open>Properties of the inline text conversion\<close>

lemma getSubstitution_plain:
  "0x24 \<notin> set repl \<Longrightarrow> getSubstitution m pre post repl = repl"
  by (induction m pre post repl rule: getSubstitution.induct) auto

lemma replace_from_single:
  assumes "0x24 \<notin> set repl"
  shows "replace_from [p] repl pre s 0 = concat (map (\<lambda>x. if p x then repl else [x]) s)"
  using assms by (induction s arbitrary: pre) (simp_all add: getSubstitution_plain)

lemma replace_g_char:
  "0x24 \<notin> set repl \<Longrightarrow> replace_g [\<lambda>x. x = c] repl s = subst_char c repl s"
  by (simp add: replace_g_def subst_char_def replace_from_single)

lemma no_dollar: "0x24 \<notin> set (js ''&amp;'')" "0x24 \<notin> set (js ''&lt;'')" "0x24 \<notin> set (js ''&gt;'')" "0x24 \<notin> set (js ''<br>'')"
  by (simp_all add: js_def)

lemma runToHtml_spec: "runToHtml rt = spec_run rt"
  by (simp add: runToHtml_def spec_run_def spec_escape_def wrap_def replace_g_char no_dollar Let_def)

lemma subst_char_append: "subst_char c r (a @ b) = subst_char c r a @ subst_char c r b"
  by (simp add: subst_char_def)

lemma spec_escape_single_pass: "spec_escape s = concat (map esc1 s)"
proof (induction s)
  case Nil show ?case by (simp add: spec_escape_def subst_char_def)
next
  case (Cons c s)
  have "spec_escape (c # s) = spec_escape [c] @ spec_escape s"
    unfolding spec_escape_def
    by (metis append_Cons append_Nil subst_char_append)
  moreover have "spec_escape [c] = esc1 c"
    by (simp add: spec_escape_def subst_char_def esc1_def js_def)
  ultimately show ?case using Cons by simp
qed

section \<open>Properties of the block conversion\<close>

lemma emit_other:
  "\<not> is_bullet b \<Longrightarrow> \<not> is_number b \<Longrightarrow>
   emit b (richTextToHtml (rich b)) \<lparr>lines = L, inUl = u, inOl = v\<rparr> = \<lparr>lines = L @ own_markup b, inUl = u, inOl = v\<rparr>"
  by (simp add: own_markup_def emit_def push_def is_bullet_def is_number_def Let_def)

lemma step_other:
  "\<not> is_bullet b \<Longrightarrow> \<not> is_number b \<Longrightarrow>
   step \<lparr>lines = L, inUl = False, inOl = False\<rparr> b = \<lparr>lines = L @ own_markup b, inUl = False, inOl = False\<rparr>"
  using emit_other [of b L False False]
  by (simp add: step_def closeUl_def closeOl_def is_bullet_def is_number_def Let_def)

lemma step_bullet_first:
  "is_bullet b \<Longrightarrow>
   step \<lparr>lines = L, inUl = False, inOl = False\<rparr> b = \<lparr>lines = L @ [ul_open, item b], inUl = True, inOl = False\<rparr>"
  by (simp add: step_def emit_def closeUl_def closeOl_def push_def is_bullet_def item_def Let_def)

lemma step_bullet_next:
  "is_bullet b \<Longrightarrow>
   step \<lparr>lines = L, inUl = True, inOl = False\<rparr> b = \<lparr>lines = L @ [item b], inUl = True, inOl = False\<rparr>"
  by (simp add: step_def emit_def closeUl_def closeOl_def push_def is_bullet_def item_def Let_def)

lemma step_number_first:
  "is_number b \<Longrightarrow>
   step \<lparr>lines = L, inUl = False, inOl = False\<rparr> b = \<lparr>lines = L @ [ol_open, item b], inUl = False, inOl = True\<rparr>"
  by (simp add: step_def emit_def closeUl_def closeOl_def push_def is_number_def item_def Let_def)

lemma step_number_next:
  "is_number b \<Longrightarrow>
   step \<lparr>lines = L, inUl = False, inOl = True\<rparr> b = \<lparr>lines = L @ [item b], inUl = False, inOl = True\<rparr>"
  by (simp add: step_def emit_def closeUl_def closeOl_def push_def is_number_def item_def Let_def)

lemma step_closes_ul:
  "\<not> is_bullet b \<Longrightarrow>
   step \<lparr>lines = L, inUl = True, inOl = False\<rparr> b = step \<lparr>lines = L @ [js ''</ul>''], inUl = False, inOl = False\<rparr> b"
  by (simp add: step_def closeUl_def closeOl_def push_def is_bullet_def Let_def)

lemma step_closes_ol:
  "\<not> is_number b \<Longrightarrow>
   step \<lparr>lines = L, inUl = False, inOl = True\<rparr> b = step \<lparr>lines = L @ [js ''</ol>''], inUl = False, inOl = False\<rparr> b"
  by (simp add: step_def closeUl_def closeOl_def push_def is_number_def Let_def)

lemma run_bullets:
  "\<forall>b \<in> set bs. is_bullet b \<Longrightarrow>
   foldl step \<lparr>lines = L, inUl = True, inOl = False\<rparr> bs = \<lparr>lines = L @ map item bs, inUl = True, inOl = False\<rparr>"
  by (induction bs arbitrary: L) (simp_all add: step_bullet_next)

lemma run_numbers:
  "\<forall>b \<in> set bs. is_number b \<Longrightarrow>
   foldl step \<lparr>lines = L, inUl = False, inOl = True\<rparr> bs = \<lparr>lines = L @ map item bs, inUl = False, inOl = True\<rparr>"
  by (induction bs arbitrary: L) (simp_all add: step_number_next)

lemma leave_ul:
  "bs = [] \<or> \<not> is_bullet (hd bs) \<Longrightarrow>
   fin (foldl step \<lparr>lines = L, inUl = True, inOl = False\<rparr> bs)
   = fin (foldl step \<lparr>lines = L @ [js ''</ul>''], inUl = False, inOl = False\<rparr> bs)"
  by (cases bs) (simp_all add: fin_def closeUl_def closeOl_def push_def step_closes_ul)

lemma leave_ol:
  "bs = [] \<or> \<not> is_number (hd bs) \<Longrightarrow>
   fin (foldl step \<lparr>lines = L, inUl = False, inOl = True\<rparr> bs)
   = fin (foldl step \<lparr>lines = L @ [js ''</ol>''], inUl = False, inOl = False\<rparr> bs)"
  by (cases bs) (simp_all add: fin_def closeUl_def closeOl_def push_def step_closes_ol)

lemma dropWhile_head: "dropWhile P bs = [] \<or> \<not> P (hd (dropWhile P bs))"
  by (metis hd_dropWhile)

lemma all_takeWhile: "\<forall>b \<in> set (takeWhile P bs). P b"
  by (auto dest: set_takeWhileD)

lemma foldl_split:
  "foldl f s (b # bs) = foldl f (foldl f (f s b) (takeWhile P bs)) (dropWhile P bs)"
proof -
  have "foldl f (foldl f (f s b) (takeWhile P bs)) (dropWhile P bs)
        = foldl f (f s b) (takeWhile P bs @ dropWhile P bs)"
    by (simp only: foldl_append)
  then show ?thesis by simp
qed

lemma loop_grouped:
  "fin (foldl step \<lparr>lines = L, inUl = False, inOl = False\<rparr> bs) = L @ group_lines bs"
proof (induction bs arbitrary: L rule: group_lines.induct)
  case 1
  show ?case by (simp add: fin_def closeUl_def closeOl_def group_lines.simps)
next
  case (2 b bs)
  show ?case
  proof (cases "is_bullet b")
    case True
    let ?t = "takeWhile is_bullet bs" and ?d = "dropWhile is_bullet bs"
    have "foldl step \<lparr>lines = L, inUl = False, inOl = False\<rparr> (b # bs)
          = foldl step (foldl step \<lparr>lines = L @ [ul_open, item b], inUl = True, inOl = False\<rparr> ?t) ?d"
      by (simp only: foldl_split [where P = is_bullet] step_bullet_first [OF True])
    also have "\<dots> = foldl step \<lparr>lines = (L @ [ul_open, item b]) @ map item ?t, inUl = True, inOl = False\<rparr> ?d"
      by (simp only: run_bullets [OF all_takeWhile])
    finally have "fin (foldl step \<lparr>lines = L, inUl = False, inOl = False\<rparr> (b # bs))
          = fin (foldl step \<lparr>lines = ((L @ [ul_open, item b]) @ map item ?t) @ [js ''</ul>''], inUl = False, inOl = False\<rparr> ?d)"
      by (simp only: leave_ul [OF dropWhile_head])
    also have "\<dots> = (((L @ [ul_open, item b]) @ map item ?t) @ [js ''</ul>'']) @ group_lines ?d"
      by (simp only: "2.IH"(1) [OF True])
    finally show ?thesis using True by (simp add: group_lines.simps)
  next
    case nb: False
    show ?thesis
    proof (cases "is_number b")
      case True
      let ?t = "takeWhile is_number bs" and ?d = "dropWhile is_number bs"
      have "foldl step \<lparr>lines = L, inUl = False, inOl = False\<rparr> (b # bs)
            = foldl step (foldl step \<lparr>lines = L @ [ol_open, item b], inUl = False, inOl = True\<rparr> ?t) ?d"
        by (simp only: foldl_split [where P = is_number] step_number_first [OF True])
      also have "\<dots> = foldl step \<lparr>lines = (L @ [ol_open, item b]) @ map item ?t, inUl = False, inOl = True\<rparr> ?d"
        by (simp only: run_numbers [OF all_takeWhile])
      finally have "fin (foldl step \<lparr>lines = L, inUl = False, inOl = False\<rparr> (b # bs))
            = fin (foldl step \<lparr>lines = ((L @ [ol_open, item b]) @ map item ?t) @ [js ''</ol>''], inUl = False, inOl = False\<rparr> ?d)"
        by (simp only: leave_ol [OF dropWhile_head])
      also have "\<dots> = (((L @ [ol_open, item b]) @ map item ?t) @ [js ''</ol>'']) @ group_lines ?d"
        by (simp only: "2.IH"(2) [OF nb True])
      finally show ?thesis using nb True by (simp add: group_lines.simps)
    next
      case False
      have "fin (foldl step \<lparr>lines = L, inUl = False, inOl = False\<rparr> (b # bs))
            = fin (foldl step \<lparr>lines = L @ own_markup b, inUl = False, inOl = False\<rparr> bs)"
        by (simp only: foldl_Cons step_other [OF nb False])
      also have "\<dots> = (L @ own_markup b) @ group_lines bs"
        by (simp only: "2.IH"(3) [OF nb False])
      finally show ?thesis using nb False by (simp add: group_lines.simps)
    qed
  qed
qed

lemma blocksToHtml_lines_grouped: "blocksToHtml_lines bs = group_lines bs"
  using loop_grouped [of "[]" bs] by (simp add: blocksToHtml_lines_def fin_def)


lemma balanced_skip:
  "\<forall>l \<in> set ls. \<not> is_tag l \<Longrightarrow> balanced opened (ls @ rest) = balanced opened rest"
  by (induction ls) (auto simp: is_tag_def)

lemma li_not_tag: "\<not> is_tag (li h)"
  by (simp add: is_tag_def li_def ul_open_def ol_open_def js_def)

lemma items_not_tag: "\<forall>l \<in> set (map item bs). \<not> is_tag l"
  by (simp add: item_def li_not_tag)

lemma own_markup_not_tag:
  "\<not> is_bullet b \<Longrightarrow> \<not> is_number b \<Longrightarrow> \<forall>l \<in> set (own_markup b). \<not> is_tag l"
  by (simp add: own_markup_def emit_def push_def Let_def is_tag_def is_bullet_def is_number_def
        ul_open_def ol_open_def js_def)

lemma tags_distinct:
  "ul_open \<noteq> ol_open" "ul_open \<noteq> js ''</ul>''" "ul_open \<noteq> js ''</ol>''"
  "ol_open \<noteq> js ''</ul>''" "ol_open \<noteq> js ''</ol>''"
  by (simp_all add: ul_open_def ol_open_def)

lemma balanced_open_ul: "balanced None (ul_open # ls) = balanced (Some (js ''</ul>'')) ls"
  by simp

lemma balanced_open_ol: "balanced None (ol_open # ls) = balanced (Some (js ''</ol>'')) ls"
  by (simp add: tags_distinct [symmetric])

lemma balanced_close_ul: "balanced (Some (js ''</ul>'')) (js ''</ul>'' # ls) = balanced None ls"
  by (simp add: tags_distinct [symmetric])

lemma balanced_close_ol: "balanced (Some (js ''</ol>'')) (js ''</ol>'' # ls) = balanced None ls"
  by (simp add: tags_distinct [symmetric])

lemma balanced_group_lines: "balanced None (group_lines bs)"
proof (induction bs rule: group_lines.induct)
  case 1
  show ?case by (simp add: group_lines.simps)
next
  case (2 b bs)
  show ?case
  proof (cases "is_bullet b")
    case True
    have "group_lines (b # bs) = ul_open # (map item (b # takeWhile is_bullet bs)
            @ (js ''</ul>'' # group_lines (dropWhile is_bullet bs)))"
      using True by (simp add: group_lines.simps)
    then have "balanced None (group_lines (b # bs)) = balanced None (group_lines (dropWhile is_bullet bs))"
      by (simp only: balanced_open_ul balanced_skip [OF items_not_tag] balanced_close_ul)
    then show ?thesis using "2.IH"(1) [OF True] by (simp only:)
  next
    case nb: False
    show ?thesis
    proof (cases "is_number b")
      case True
      have "group_lines (b # bs) = ol_open # (map item (b # takeWhile is_number bs)
              @ (js ''</ol>'' # group_lines (dropWhile is_number bs)))"
        using nb True by (simp add: group_lines.simps)
      then have "balanced None (group_lines (b # bs)) = balanced None (group_lines (dropWhile is_number bs))"
        by (simp only: balanced_open_ol balanced_skip [OF items_not_tag] balanced_close_ol)
      then show ?thesis using "2.IH"(2) [OF nb True] by (simp only:)
    next
      case False
      have "group_lines (b # bs) = own_markup b @ group_lines bs"
        using nb False by (simp add: group_lines.simps)
      then have "balanced None (group_lines (b # bs)) = balanced None (group_lines bs)"
        by (simp only: balanced_skip [OF own_markup_not_tag [OF nb False]])
      then show ?thesis using "2.IH"(3) [OF nb False] by (simp only:)
    qed
  qed
qed

lemma five_shape:
  assumes "is_bullet b1" "is_bullet b2" "btype b3 = js ''paragraph''" "is_number b4" "is_number b5"
  shows "group_lines [b1, b2, b3, b4, b5] =
         [ul_open, item b1, item b2, js ''</ul>'',
          (if richTextToHtml (rich b3) \<noteq> []
           then js ''<p style=\"margin:0 0 12px 0\">'' @ richTextToHtml (rich b3) @ js ''</p>''
           else js ''<p style=\"margin:0 0 12px 0\">&nbsp;</p>''),
          ol_open, item b4, item b5, js ''</ol>'']"
proof -
  have p: "\<not> is_bullet b3" "\<not> is_number b3" "\<not> is_bullet b4"
    using assms by (simp_all add: is_bullet_def is_number_def)
  have om: "own_markup b3 = [(if richTextToHtml (rich b3) \<noteq> []
           then js ''<p style=\"margin:0 0 12px 0\">'' @ richTextToHtml (rich b3) @ js ''</p>''
           else js ''<p style=\"margin:0 0 12px 0\">&nbsp;</p>'')]"
    using assms(3) by (simp add: own_markup_def emit_def push_def)
  show ?thesis using assms p om by (simp add: group_lines.simps)
qed

section \<open>List grouping (C1)\<close>

text \<open>
  C1.  The lines that \<open>blocksToHtml\<close> emits are those of the grouping: every maximal run
  of bulleted items stands in one \<^verbatim>\<open><ul>\<close> container and every maximal run of numbered
  items in one \<^verbatim>\<open><ol>\<close> container, a container is closed before a block of another
  type (a list item of the other kind included) emits its markup, and a container that
  is open at the end of the sequence is closed; so the emitted containers are balanced.
  In particular two bulleted items, a paragraph and two numbered items give one
  \<^verbatim>\<open><ul>\<close> with two items, the paragraph, and one \<^verbatim>\<open><ol>\<close> with two items.
\<close>

theorem blocksToHtml_list_grouping:
  "blocksToHtml_lines bs = group_lines bs \<and>
   balanced None (blocksToHtml_lines bs) \<and>
   (is_bullet b1 \<and> is_bullet b2 \<and> btype b3 = js ''paragraph'' \<and> is_number b4 \<and> is_number b5 \<longrightarrow>
      blocksToHtml [b1, b2, b3, b4, b5] =
        js_join (js [CHR 0x0A])
          [ul_open, item b1, item b2, js ''</ul>'',
           (if richTextToHtml (rich b3) \<noteq> []
            then js ''<p style=\"margin:0 0 12px 0\">'' @ richTextToHtml (rich b3) @ js ''</p>''
            else js ''<p style=\"margin:0 0 12px 0\">&nbsp;</p>''),
           ol_open, item b4, item b5, js ''</ol>''])"
proof (intro conjI impI)
  show "blocksToHtml_lines bs = group_lines bs"
    by (rule blocksToHtml_lines_grouped)
  show "balanced None (blocksToHtml_lines bs)"
    by (simp only: blocksToHtml_lines_grouped balanced_group_lines)
next
  assume h: "is_bullet b1 \<and> is_bullet b2 \<and> btype b3 = js ''paragraph'' \<and> is_number b4 \<and> is_number b5"
  then have "blocksToHtml_lines [b1, b2, b3, b4, b5] =
        [ul_open, item b1, item b2, js ''</ul>'',
         (if richTextToHtml (rich b3) \<noteq> []
          then js ''<p style=\"margin:0 0 12px 0\">'' @ richTextToHtml (rich b3) @ js ''</p>''
          else js ''<p style=\"margin:0 0 12px 0\">&nbsp;</p>''),
         ol_open, item b4, item b5, js ''</ol>'']"
    by (simp only: blocksToHtml_lines_grouped five_shape)
  then show "blocksToHtml [b1, b2, b3, b4, b5] =
        js_join (js [CHR 0x0A])
          [ul_open, item b1, item b2, js ''</ul>'',
           (if richTextToHtml (rich b3) \<noteq> []
            then js ''<p style=\"margin:0 0 12px 0\">'' @ richTextToHtml (rich b3) @ js ''</p>''
            else js ''<p style=\"margin:0 0 12px 0\">&nbsp;</p>''),
           ol_open, item b4, item b5, js ''</ol>'']"
    by (simp only: blocksToHtml_def)
qed

lemma item_sample:
  "item (sample_block ty ''a'') = js ''<li style=\"margin-bottom:4px\">a</li>''"
  by (simp add: item_def li_def sample_block_def richTextToHtml_def runToHtml_def replace_g_def
        flag_def js_def)

lemma rich_sample:
  "richTextToHtml (rich (sample_block ty ''a'')) = js ''a''"
  by (simp add: sample_block_def richTextToHtml_def runToHtml_def replace_g_def flag_def js_def)

theorem blocksToHtml_list_grouping_witness:
  "is_bullet (sample_block ''bulleted_list_item'' ''a'') \<and>
   btype (sample_block ''paragraph'' ''a'') = js ''paragraph'' \<and>
   is_number (sample_block ''numbered_list_item'' ''a'') \<and>
   blocksToHtml
     [sample_block ''bulleted_list_item'' ''a'', sample_block ''bulleted_list_item'' ''a'',
      sample_block ''paragraph'' ''a'',
      sample_block ''numbered_list_item'' ''a'', sample_block ''numbered_list_item'' ''a''] =
     js_join (js [CHR 0x0A])
       [js ''<ul style=\"margin:0 0 12px 0;padding-left:24px\">'',
        js ''<li style=\"margin-bottom:4px\">a</li>'', js ''<li style=\"margin-bottom:4px\">a</li>'',
        js ''</ul>'',
        js ''<p style=\"margin:0 0 12px 0\">a</p>'',
        js ''<ol style=\"margin:0 0 12px 0;padding-left:24px\">'',
        js ''<li style=\"margin-bottom:4px\">a</li>'', js ''<li style=\"margin-bottom:4px\">a</li>'',
        js ''</ol>'']"
proof -
  have b: "is_bullet (sample_block ''bulleted_list_item'' ''a'')"
    by (simp add: is_bullet_def sample_block_def)
  have p: "btype (sample_block ''paragraph'' ''a'') = js ''paragraph''"
    by (simp add: sample_block_def)
  have n: "is_number (sample_block ''numbered_list_item'' ''a'')"
    by (simp add: is_number_def sample_block_def)
  have pl: "js ''<p style=\"margin:0 0 12px 0\">'' @ js ''a'' @ js ''</p>''
            = js ''<p style=\"margin:0 0 12px 0\">a</p>''"
    by (simp add: js_def)
  have ne: "js ''a'' \<noteq> []" by (simp add: js_def)
  show ?thesis
    using blocksToHtml_list_grouping
            [of "[]" "sample_block ''bulleted_list_item'' ''a''" "sample_block ''bulleted_list_item'' ''a''"
                "sample_block ''paragraph'' ''a''"
                "sample_block ''numbered_list_item'' ''a''" "sample_block ''numbered_list_item'' ''a''"]
          b p n
    by (simp only: item_sample rich_sample pl ne ul_open_def ol_open_def simp_thms if_True)
qed

section \<open>Inline text (C2)\<close>

lemma js_join_empty_sep: "js_join [] xs = concat xs"
  by (induction "[] :: jsstring" xs rule: js_join.induct) simp_all

text \<open>
  C2.  Every run of text is first escaped, \<^verbatim>\<open>&\<close> before \<^verbatim>\<open><\<close> before \<^verbatim>\<open>>\<close>, and its
  newlines are turned into \<^verbatim>\<open><br>\<close>; the escaped text is then wrapped by the code tag
  innermost, then bold, italic, strikethrough, underline, and the hyperlink outermost,
  each only when the run has that annotation.  A run with no annotation and no link is
  its escaped text.  Escaping in this order rewrites each character of the text once.
\<close>

theorem richTextToHtml_escape_then_wrap:
  "runToHtml rt = spec_run rt \<and>
   richTextToHtml rts = concat (map spec_run rts) \<and>
   spec_escape s = concat (map esc1 s) \<and>
   (\<not> flag code rt \<and> \<not> flag bold rt \<and> \<not> flag italic rt \<and> \<not> flag strikethrough rt \<and>
    \<not> flag underline rt \<and> \<not> truthy (href rt) \<longrightarrow> runToHtml rt = spec_escape (plain_text rt))"
proof (intro conjI impI)
  show "runToHtml rt = spec_run rt" by (rule runToHtml_spec)
  have "runToHtml = spec_run" by (rule ext) (rule runToHtml_spec)
  then show "richTextToHtml rts = concat (map spec_run rts)"
    by (simp add: richTextToHtml_def js_join_empty_sep)
  show "spec_escape s = concat (map esc1 s)" by (rule spec_escape_single_pass)
next
  assume "\<not> flag code rt \<and> \<not> flag bold rt \<and> \<not> flag italic rt \<and> \<not> flag strikethrough rt \<and>
    \<not> flag underline rt \<and> \<not> truthy (href rt)"
  then show "runToHtml rt = spec_escape (plain_text rt)"
    by (simp add: runToHtml_spec spec_run_def wrap_def)
qed

theorem richTextToHtml_escape_then_wrap_witness:
  "\<not> flag code \<lparr>plain_text = js ''a<b&c'', annots = None, href = None\<rparr> \<and>
   \<not> truthy (href \<lparr>plain_text = js ''a<b&c'', annots = None, href = None\<rparr>) \<and>
   runToHtml \<lparr>plain_text = js ''a<b&c'', annots = None, href = None\<rparr> = js ''a&lt;b&amp;c''"
proof -
  let ?rt = "\<lparr>plain_text = js ''a<b&c'', annots = None, href = None\<rparr>"
  note t = richTextToHtml_escape_then_wrap [of ?rt "[]" "js ''a<b&c''"]
  have plain: "\<not> flag code ?rt \<and> \<not> flag bold ?rt \<and> \<not> flag italic ?rt \<and> \<not> flag strikethrough ?rt \<and>
    \<not> flag underline ?rt \<and> \<not> truthy (href ?rt)"
    by (simp add: flag_def)
  from t plain have a: "runToHtml ?rt = spec_escape (plain_text ?rt)" by blast
  from t have b: "spec_escape (js ''a<b&c'') = concat (map esc1 (js ''a<b&c''))" by blast
  have c: "concat (map esc1 (js ''a<b&c'')) = js ''a&lt;b&amp;c''"
    by (simp add: esc1_def js_def)
  have "runToHtml ?rt = js ''a&lt;b&amp;c''"
    using a b c by simp
  then show ?thesis using plain by simp
qed

section \<open>E-mail validation (C6, C7)\<close>

lemma rx_match_Plus:
  "rx_match (Plus p # r) s \<longleftrightarrow> (\<exists>a b. s = a @ b \<and> a \<noteq> [] \<and> list_all p a \<and> rx_match r b)"
proof (induction s)
  case Nil
  show ?case by simp
next
  case (Cons c cs)
  show ?case
  proof
    assume "rx_match (Plus p # r) (c # cs)"
    then have pc: "p c" and alt: "rx_match (Plus p # r) cs \<or> rx_match r cs" by simp_all
    from alt show "\<exists>a b. c # cs = a @ b \<and> a \<noteq> [] \<and> list_all p a \<and> rx_match r b"
    proof
      assume "rx_match (Plus p # r) cs"
      then obtain a b where "cs = a @ b" "list_all p a" "rx_match r b" using Cons.IH by blast
      then have "c # cs = (c # a) @ b \<and> c # a \<noteq> [] \<and> list_all p (c # a) \<and> rx_match r b"
        using pc by simp
      then show ?thesis by blast
    next
      assume "rx_match r cs"
      then have "c # cs = [c] @ cs \<and> [c] \<noteq> [] \<and> list_all p [c] \<and> rx_match r cs"
        using pc by simp
      then show ?thesis by blast
    qed
  next
    assume "\<exists>a b. c # cs = a @ b \<and> a \<noteq> [] \<and> list_all p a \<and> rx_match r b"
    then obtain a b where ab: "c # cs = a @ b" "a \<noteq> []" "list_all p a" "rx_match r b" by blast
    then obtain a' where a: "a = c # a'" by (cases a) auto
    with ab have cs: "cs = a' @ b" and pc: "p c" and pa: "list_all p a'" by simp_all
    show "rx_match (Plus p # r) (c # cs)"
    proof (cases a')
      case Nil
      with cs ab pc show ?thesis by simp
    next
      case (Cons x xs)
      with cs pa ab have "rx_match (Plus p # r) cs" using Cons.IH by blast
      with pc show ?thesis by simp
    qed
  qed
qed

lemma rx_match_One:
  "rx_match (One p # r) s \<longleftrightarrow> (\<exists>c b. s = c # b \<and> p c \<and> rx_match r b)"
  by (cases s) simp_all

lemma isValidFormat_shape:
  "isValidFormat email \<longleftrightarrow>
     (\<exists>l d t. email = l @ [0x40] @ d @ [0x2E] @ t \<and> l \<noteq> [] \<and> d \<noteq> [] \<and> t \<noteq> [] \<and>
              list_all not_space_at l \<and> list_all not_space_at d \<and> list_all not_space_at t)"
  unfolding isValidFormat_def
  by (simp only: rx_match_Plus rx_match_One rx_match.simps(1)) (auto, blast)


lemma split_on_no_sep: "sep \<notin> set s \<Longrightarrow> split_on sep s = [s]"
  by (induction s) auto

lemma split_on_first: "sep \<notin> set l \<Longrightarrow> split_on sep (l @ sep # r) = l # split_on sep r"
  by (induction l) auto

lemma not_space_at_no_at: "list_all not_space_at s \<Longrightarrow> 0x40 \<notin> set s"
  by (induction s) (auto simp: not_space_at_def)

lemma isValidFormat_domain:
  assumes "isValidFormat email"
  shows "\<exists>l d. email = l @ 0x40 # d \<and> 0x40 \<notin> set l \<and> 0x40 \<notin> set d \<and> 0x2E \<in> set d
               \<and> split_on 0x40 email = [l, d]"
proof -
  from assms obtain l d t where e: "email = l @ [0x40] @ d @ [0x2E] @ t"
    and ns: "list_all not_space_at l" "list_all not_space_at d" "list_all not_space_at t"
    unfolding isValidFormat_shape by blast
  let ?d = "d @ [0x2E] @ t"
  have l: "0x40 \<notin> set l" using ns by (simp add: not_space_at_no_at)
  have d: "0x40 \<notin> set ?d" using ns by (simp add: not_space_at_no_at)
  have "split_on 0x40 (l @ 0x40 # ?d) = [l, ?d]"
    by (simp only: split_on_first [OF l] split_on_no_sep [OF d])
  then show ?thesis using e l d by auto
qed

text \<open>
  C6.  An address that fails the pattern of \<open>isValidFormat\<close> is answered with
  \<^verbatim>\<open>{valid: false, reason: "Invalid email format"}\<close> whatever the world is, and the state
  with its history is returned as it was: no lookup is made.  The pattern accepts
  exactly the addresses made of a local part, one \<^verbatim>\<open>@\<close>, and a domain with a dot inside,
  none of them empty and none containing white space or \<^verbatim>\<open>@\<close>.
\<close>

theorem validateEmail_invalid_format:
  "(\<not> isValidFormat email \<longrightarrow> validateEmail w email st = (Invalid (js ''Invalid email format''), st)) \<and>
   (isValidFormat email \<longleftrightarrow>
     (\<exists>l d t. email = l @ [0x40] @ d @ [0x2E] @ t \<and> l \<noteq> [] \<and> d \<noteq> [] \<and> t \<noteq> [] \<and>
              list_all not_space_at l \<and> list_all not_space_at d \<and> list_all not_space_at t))"
proof (intro conjI impI)
  assume "\<not> isValidFormat email"
  then show "validateEmail w email st = (Invalid (js ''Invalid email format''), st)"
    by (simp add: validateEmail_def)
next
  show "isValidFormat email \<longleftrightarrow>
     (\<exists>l d t. email = l @ [0x40] @ d @ [0x2E] @ t \<and> l \<noteq> [] \<and> d \<noteq> [] \<and> t \<noteq> [] \<and>
              list_all not_space_at l \<and> list_all not_space_at d \<and> list_all not_space_at t)"
    by (rule isValidFormat_shape)
qed

theorem validateEmail_invalid_format_witness:
  "\<not> isValidFormat (js ''a b@c.d'') \<and> \<not> isValidFormat (js ''a@b@c.d'') \<and> \<not> isValidFormat (js ''a@bcd'') \<and>
   validateEmail sample_world (js ''a b@c.d'') init = (Invalid (js ''Invalid email format''), init)"
proof -
  have a: "\<not> isValidFormat (js ''a b@c.d'')" "\<not> isValidFormat (js ''a@b@c.d'')" "\<not> isValidFormat (js ''a@bcd'')"
    by (simp_all add: isValidFormat_def not_space_at_def is_space_def js_def)
  show ?thesis using validateEmail_invalid_format [of "js ''a b@c.d''" sample_world init] a by simp
qed

lemma split_unique:
  "l @ x # d = l' @ x # d' \<Longrightarrow> x \<notin> set l \<Longrightarrow> x \<notin> set l' \<Longrightarrow> l = l' \<and> d = d'"
proof (induction l arbitrary: l')
  case Nil
  then show ?case by (cases l') auto
next
  case (Cons a l)
  then show ?case by (cases l') auto
qed

text \<open>
  C7.  A well-formed address is \<open>l @ d\<close> with one \<^verbatim>\<open>@\<close>; when the resolver, asked for
  \<open>d\<close>, fails with an error, answers with no list or answers with the empty list,
  \<open>validateEmail\<close> returns \<^verbatim>\<open>{valid: false, reason: "No mail server found for d"}\<close>.  The
  resolver's error ends there: the result of \<open>validateEmail\<close> is always a validation
  result.
\<close>

theorem validateEmail_no_mail_server:
  assumes "isValidFormat email"
  shows "\<exists>l d. email = l @ 0x40 # d \<and> 0x40 \<notin> set l \<and> 0x40 \<notin> set d \<and>
           (\<forall>w st. (case resolveMx w (trace st @ [ResolveMx d]) of
                       Inl e \<Rightarrow> True | Inr None \<Rightarrow> True | Inr (Some records) \<Rightarrow> records = []) \<longrightarrow>
                    validateEmail w email st
                    = (Invalid (js ''No mail server found for '' @ d), emit_ev (ResolveMx d) st))"
proof -
  from isValidFormat_domain [OF assms] obtain l d where
    e: "email = l @ 0x40 # d" "0x40 \<notin> set l" "0x40 \<notin> set d" and sp: "split_on 0x40 email = [l, d]"
    by blast
  have "\<forall>w st. (case resolveMx w (trace st @ [ResolveMx d]) of
                       Inl e \<Rightarrow> True | Inr None \<Rightarrow> True | Inr (Some records) \<Rightarrow> records = []) \<longrightarrow>
                    validateEmail w email st
                    = (Invalid (js ''No mail server found for '' @ d), emit_ev (ResolveMx d) st)"
    using assms sp
    by (auto simp: validateEmail_def emit_ev_def Let_def split: sum.splits option.splits)
  with e show ?thesis by blast
qed


theorem validateEmail_no_mail_server_witness:
  "isValidFormat (js ''a@b.c'') \<and>
   validateEmail (sample_world\<lparr>resolveMx := \<lambda>tr. Inl (Error (js ''ENOTFOUND''))\<rparr>) (js ''a@b.c'') init
   = (Invalid (js ''No mail server found for '' @ js ''b.c''), emit_ev (ResolveMx (js ''b.c'')) init)"
proof -
  let ?w = "sample_world\<lparr>resolveMx := \<lambda>tr. Inl (Error (js ''ENOTFOUND''))\<rparr>"
  have v: "isValidFormat (js ''a@b.c'')"
    by (simp add: isValidFormat_def not_space_at_def is_space_def js_def)
  from validateEmail_no_mail_server [OF v] obtain l d where
    e: "js ''a@b.c'' = l @ 0x40 # d" "0x40 \<notin> set l" and
    r: "\<forall>w st. (case resolveMx w (trace st @ [ResolveMx d]) of
                       Inl e \<Rightarrow> True | Inr None \<Rightarrow> True | Inr (Some records) \<Rightarrow> records = []) \<longrightarrow>
                    validateEmail w (js ''a@b.c'') st
                    = (Invalid (js ''No mail server found for '' @ d), emit_ev (ResolveMx d) st)"
    by blast
  have lit: "js ''a@b.c'' = js ''a'' @ 0x40 # js ''b.c''" by (simp add: js_def)
  have na: "0x40 \<notin> set (js ''a'')" by (simp add: js_def)
  from e(1) lit have "l @ 0x40 # d = js ''a'' @ 0x40 # js ''b.c''" by (simp only:)
  from split_unique [OF this e(2) na] have d: "d = js ''b.c''" by (rule conjunct2)
  have rm: "resolveMx ?w (trace init @ [ResolveMx d]) = Inl (Error (js ''ENOTFOUND''))"
    by simp
  from r have "(case resolveMx ?w (trace init @ [ResolveMx d]) of
                       Inl e \<Rightarrow> True | Inr None \<Rightarrow> True | Inr (Some records) \<Rightarrow> records = []) \<longrightarrow>
                    validateEmail ?w (js ''a@b.c'') init
                    = (Invalid (js ''No mail server found for '' @ d), emit_ev (ResolveMx d) init)"
    by blast
  then have "validateEmail ?w (js ''a@b.c'') init
                    = (Invalid (js ''No mail server found for '' @ d), emit_ev (ResolveMx d) init)"
    by (simp only: rm sum.case simp_thms)
  then show ?thesis using v by (simp only: d simp_thms)
qed


section \<open>Token reuse (C3)\<close>

lemma token_hit:
  assumes "cachedToken st = Some tok" "tok \<noteq> []" "tokenExpiresAt st = Some E"
    and "now w (trace st @ [DateNow]) < E"
  shows "getGraphToken w st = (Inr tok, emit_ev DateNow st)"
  using assms by (simp add: getGraphToken_def emit_ev_def Let_def)

lemma token_miss:
  assumes "cachedToken st = Some tok" "tok \<noteq> []" "tokenExpiresAt st = Some E"
    and "\<not> now w (trace st @ [DateNow]) < E"
    and "truthy (env w (js ''OUTLOOK_REFRESH_TOKEN''))"
  shows "exchanges (trace (snd (getGraphToken w st))) = Suc (exchanges (trace st))"
  using assms
  by (simp add: getGraphToken_def emit_ev_def exchanges_def Let_def split: sum.splits option.splits)

lemma token_obtained:
  assumes "getGraphToken w st0 = (Inr tok, st1)"
    and "exchanges (trace st1) = Suc (exchanges (trace st0))"
  shows "tok \<noteq> [] \<and> cachedToken st1 = Some tok \<and> truthy (env w (js ''OUTLOOK_REFRESH_TOKEN'')) \<and>
         (\<exists>data tr. token_fetch w tr = Inr data \<and> access_token data = Some tok \<and>
            tokenExpiresAt st1 =
              map_option (\<lambda>e. now w (tr @ [DateNow]) + (e - 60) * 1000) (expires_in data))"
proof -
  let ?st = "if truthy (cachedToken st0) then emit_ev DateNow st0 else st0"
  let ?hit = "truthy (cachedToken ?st) \<and>
     (case tokenExpiresAt ?st of None \<Rightarrow> False | Some t \<Rightarrow> now w (trace ?st) < t)"
  have nohit: "\<not> ?hit"
  proof
    assume h: ?hit
    then have "getGraphToken w st0 = (Inr (the (cachedToken ?st)), ?st)"
      by (simp add: getGraphToken_def Let_def)
    with assms(1) have "st1 = ?st" by simp
    with assms(2) show False by (simp add: exchanges_def emit_ev_def split: if_splits)
  qed
  let ?rt = "env w (js ''OUTLOOK_REFRESH_TOKEN'')"
  have rt: "truthy ?rt"
  proof (rule ccontr)
    assume "\<not> truthy ?rt"
    with nohit have "fst (getGraphToken w st0) = Inl (Error (js ''OUTLOOK_REFRESH_TOKEN is not set.'' @ [0x0A]
                                 @ js ''Run: node scripts/get-token.js'' @ [0x0A]
                                 @ js ''Then add the token to your GitHub Secrets.''))"
      by (simp add: getGraphToken_def Let_def)
    with assms(1) show False by simp
  qed
  let ?st2 = "emit_ev (TokenExchange (env w (js ''AZURE_CLIENT_ID'')) (the ?rt)) ?st"
  obtain data where data: "token_fetch w (trace ?st2) = Inr data"
    and good: "ok data" "truthy (access_token data)"
    using assms(1) nohit rt
    by (cases "token_fetch w (trace ?st2)")
       (auto simp: getGraphToken_def Let_def split: if_splits)
  let ?st3 = "emit_ev DateNow ?st2"
  let ?st4 = "?st3\<lparr>cachedToken := access_token data,
        tokenExpiresAt := (case expires_in data of None \<Rightarrow> None
                           | Some e \<Rightarrow> Some (now w (trace ?st3) + (e - 60) * 1000))\<rparr>"
  let ?st5 = "if truthy (refresh_token data) \<and> refresh_token data \<noteq> ?rt
              then emit_ev (RotationNotice (the (refresh_token data))) ?st4 else ?st4"
  have res: "getGraphToken w st0 = (Inr (the (cachedToken ?st5)), ?st5)"
  proof (cases "truthy (cachedToken st0)")
    case True
    with nohit rt data good show ?thesis
      by (auto simp: getGraphToken_def Let_def emit_ev_def split: option.splits if_splits)
  next
    case False
    with nohit rt data good show ?thesis
      by (auto simp: getGraphToken_def Let_def emit_ev_def split: option.splits if_splits)
  qed
  from good obtain t where t: "access_token data = Some t" "t \<noteq> []"
    by (cases "access_token data") auto
  have c5: "cachedToken ?st5 = Some t" using t by (simp add: emit_ev_def)
  have e5: "tokenExpiresAt ?st5 =
      map_option (\<lambda>e. now w (trace ?st2 @ [DateNow]) + (e - 60) * 1000) (expires_in data)"
    by (cases "expires_in data") (simp_all add: emit_ev_def)
  from res assms(1) c5 have "tok = t" and "st1 = ?st5" by simp_all
  with t c5 e5 rt data show ?thesis by blast
qed


text \<open>
  C3.  When a call obtains a token by an exchange, the token is cached, and from a
  response with lifetime \<open>expires_in\<close> read at the instant \<open>t\<close> the cache is valid until
  \<open>t + (expires_in - 60) * 1000\<close>, the expiry less the margin of 60 seconds.  From a
  state that caches the token until \<open>E\<close>, a call made before \<open>E\<close> returns the same token,
  asks the token endpoint nothing and leaves the cache as it is, so that this holds of
  every later call before \<open>E\<close> as well; a call made at \<open>E\<close> or later makes exactly one
  exchange.
\<close>

theorem getGraphToken_validity_window:
  assumes "getGraphToken w st0 = (Inr tok, st1)"
    and "exchanges (trace st1) = Suc (exchanges (trace st0))"
  shows "cachedToken st1 = Some tok \<and>
         (\<exists>data tr. token_fetch w tr = Inr data \<and> access_token data = Some tok \<and>
            tokenExpiresAt st1 =
              map_option (\<lambda>e. now w (tr @ [DateNow]) + (e - 60) * 1000) (expires_in data)) \<and>
         (\<forall>(st::state) E. cachedToken st = Some tok \<and> tokenExpiresAt st = Some E \<longrightarrow>
            (now w (trace st @ [DateNow]) < E \<longrightarrow>
               getGraphToken w st = (Inr tok, emit_ev DateNow st) \<and>
               exchanges (trace (emit_ev DateNow st)) = exchanges (trace st) \<and>
               cachedToken (emit_ev DateNow st) = Some tok \<and>
               tokenExpiresAt (emit_ev DateNow st) = Some E) \<and>
            (\<not> now w (trace st @ [DateNow]) < E \<longrightarrow>
               exchanges (trace (snd (getGraphToken w st))) = Suc (exchanges (trace st))))"
proof -
  note o = token_obtained [OF assms]
  have "\<forall>(st::state) E. cachedToken st = Some tok \<and> tokenExpiresAt st = Some E \<longrightarrow>
            (now w (trace st @ [DateNow]) < E \<longrightarrow>
               getGraphToken w st = (Inr tok, emit_ev DateNow st) \<and>
               exchanges (trace (emit_ev DateNow st)) = exchanges (trace st) \<and>
               cachedToken (emit_ev DateNow st) = Some tok \<and>
               tokenExpiresAt (emit_ev DateNow st) = Some E) \<and>
            (\<not> now w (trace st @ [DateNow]) < E \<longrightarrow>
               exchanges (trace (snd (getGraphToken w st))) = Suc (exchanges (trace st)))"
  proof (intro allI impI conjI)
    fix st :: state and E
    assume c: "cachedToken st = Some tok \<and> tokenExpiresAt st = Some E"
    {
      assume "now w (trace st @ [DateNow]) < E"
      with c o show "getGraphToken w st = (Inr tok, emit_ev DateNow st)"
        by (simp add: token_hit)
    }
    show "exchanges (trace (emit_ev DateNow st)) = exchanges (trace st)"
      by (simp add: emit_ev_def exchanges_def)
    from c show "cachedToken (emit_ev DateNow st) = Some tok" by (simp add: emit_ev_def)
    from c show "tokenExpiresAt (emit_ev DateNow st) = Some E" by (simp add: emit_ev_def)
    {
      assume "\<not> now w (trace st @ [DateNow]) < E"
      with c o show "exchanges (trace (snd (getGraphToken w st))) = Suc (exchanges (trace st))"
        by (simp add: token_miss)
    }
  qed
  with o show ?thesis by blast
qed

theorem getGraphToken_validity_window_witness:
  "getGraphToken sample_world init
     = (Inr (js ''token''),
        init\<lparr>cachedToken := Some (js ''token''), tokenExpiresAt := Some 3540002,
             trace := [TokenExchange (Some (js ''secret'')) (js ''secret''), DateNow]\<rparr>) \<and>
   getGraphToken sample_world
     (init\<lparr>cachedToken := Some (js ''token''), tokenExpiresAt := Some 3540002,
           trace := [TokenExchange (Some (js ''secret'')) (js ''secret''), DateNow]\<rparr>)
     = (Inr (js ''token''),
        init\<lparr>cachedToken := Some (js ''token''), tokenExpiresAt := Some 3540002,
             trace := [TokenExchange (Some (js ''secret'')) (js ''secret''), DateNow, DateNow]\<rparr>)"
proof -
  let ?s1 = "init\<lparr>cachedToken := Some (js ''token''), tokenExpiresAt := Some 3540002,
             trace := [TokenExchange (Some (js ''secret'')) (js ''secret''), DateNow]\<rparr>"
  have first: "getGraphToken sample_world init = (Inr (js ''token''), ?s1)"
    by (simp add: getGraphToken_def sample_world_def required_def init_def emit_ev_def Let_def)
  have ex: "exchanges (trace ?s1) = Suc (exchanges (trace init))"
    by (simp add: exchanges_def init_def)
  have before: "now sample_world (trace ?s1 @ [DateNow]) < 3540002"
    by (simp add: sample_world_def)
  have c: "cachedToken ?s1 = Some (js ''token'') \<and> tokenExpiresAt ?s1 = Some 3540002"
    by simp
  from getGraphToken_validity_window [OF first ex] c before
  have "getGraphToken sample_world ?s1 = (Inr (js ''token''), emit_ev DateNow ?s1)"
    by blast
  with first show ?thesis by (simp add: emit_ev_def)
qed

section \<open>Partial update (C9) and placeholder substitution (C4)\<close>

lemma replace_from_literal:
  "0x24 \<notin> set repl \<Longrightarrow> replace_from pat repl pre s k = replace_literal pat repl s k"
  by (induction pat repl pre s k rule: replace_from.induct) (auto simp: getSubstitution_plain)

lemma updateRow_keys:
  "fst ` set (updateRow_properties c u) =
     (case validationStatus u of None \<Rightarrow> {} | Some v \<Rightarrow> {COL_validationStatus c}) \<union>
     (case sendStatus u of None \<Rightarrow> {} | Some v \<Rightarrow> {COL_sendStatus c}) \<union>
     (case sentAt u of None \<Rightarrow> {} | Some v \<Rightarrow> {COL_sentAt c}) \<union>
     (case send u of None \<Rightarrow> {} | Some v \<Rightarrow> {COL_send c})"
  by (auto simp: updateRow_properties_def Let_def update_keys split: option.splits)

lemma updateRow_values:
  assumes "distinct [COL_validationStatus c, COL_sendStatus c, COL_sentAt c, COL_send c]"
  shows "map_of (updateRow_properties c u) (COL_validationStatus c) = map_option Patch_rich_text (validationStatus u)"
    and "map_of (updateRow_properties c u) (COL_sendStatus c) = map_option Patch_select (sendStatus u)"
    and "map_of (updateRow_properties c u) (COL_sentAt c) = map_option Patch_date (sentAt u)"
    and "map_of (updateRow_properties c u) (COL_send c) = map_option Patch_checkbox (send u)"
  using assms
  by (auto simp: updateRow_properties_def Let_def update_conv' split: option.splits)

text \<open>
  C9.  \<open>updateRow\<close> sends one patch, whose keys are the columns of the fields that the
  update supplies and no others; with four different column names each supplied field
  is written under its own column with its own kind of value (text, choice, date,
  checkbox), and a field that is not supplied has no entry in the patch.
\<close>

theorem updateRow_partial_patch:
  "trace (snd (updateRow w pageId u st)) = trace st @ [PagesUpdate pageId (updateRow_properties (col w) u)] \<and>
   fst ` set (updateRow_properties c u) =
     (case validationStatus u of None \<Rightarrow> {} | Some v \<Rightarrow> {COL_validationStatus c}) \<union>
     (case sendStatus u of None \<Rightarrow> {} | Some v \<Rightarrow> {COL_sendStatus c}) \<union>
     (case sentAt u of None \<Rightarrow> {} | Some v \<Rightarrow> {COL_sentAt c}) \<union>
     (case send u of None \<Rightarrow> {} | Some v \<Rightarrow> {COL_send c}) \<and>
   (distinct [COL_validationStatus c, COL_sendStatus c, COL_sentAt c, COL_send c] \<longrightarrow>
      map_of (updateRow_properties c u) (COL_validationStatus c) = map_option Patch_rich_text (validationStatus u) \<and>
      map_of (updateRow_properties c u) (COL_sendStatus c) = map_option Patch_select (sendStatus u) \<and>
      map_of (updateRow_properties c u) (COL_sentAt c) = map_option Patch_date (sentAt u) \<and>
      map_of (updateRow_properties c u) (COL_send c) = map_option Patch_checkbox (send u))"
proof (intro conjI impI)
  show "trace (snd (updateRow w pageId u st)) = trace st @ [PagesUpdate pageId (updateRow_properties (col w) u)]"
    by (simp add: updateRow_def emit_ev_def Let_def)
  show "fst ` set (updateRow_properties c u) =
     (case validationStatus u of None \<Rightarrow> {} | Some v \<Rightarrow> {COL_validationStatus c}) \<union>
     (case sendStatus u of None \<Rightarrow> {} | Some v \<Rightarrow> {COL_sendStatus c}) \<union>
     (case sentAt u of None \<Rightarrow> {} | Some v \<Rightarrow> {COL_sentAt c}) \<union>
     (case send u of None \<Rightarrow> {} | Some v \<Rightarrow> {COL_send c})"
    by (rule updateRow_keys)
next
  assume d: "distinct [COL_validationStatus c, COL_sendStatus c, COL_sentAt c, COL_send c]"
  show "map_of (updateRow_properties c u) (COL_validationStatus c) = map_option Patch_rich_text (validationStatus u)"
    by (rule updateRow_values(1) [OF d])
  show "map_of (updateRow_properties c u) (COL_sendStatus c) = map_option Patch_select (sendStatus u)"
    by (rule updateRow_values(2) [OF d])
  show "map_of (updateRow_properties c u) (COL_sentAt c) = map_option Patch_date (sentAt u)"
    by (rule updateRow_values(3) [OF d])
  show "map_of (updateRow_properties c u) (COL_send c) = map_option Patch_checkbox (send u)"
    by (rule updateRow_values(4) [OF d])
qed

theorem updateRow_partial_patch_witness:
  "distinct [COL_validationStatus default_COL, COL_sendStatus default_COL, COL_sentAt default_COL,
             COL_send default_COL] \<and>
   map_of (updateRow_properties default_COL
             \<lparr>validationStatus = None, sendStatus = Some (js ''Sent''), sentAt = Some (js ''2024''),
              send = Some False\<rparr>) (COL_validationStatus default_COL) = None \<and>
   map_of (updateRow_properties default_COL
             \<lparr>validationStatus = None, sendStatus = Some (js ''Sent''), sentAt = Some (js ''2024''),
              send = Some False\<rparr>) (COL_send default_COL) = Some (Patch_checkbox False)"
proof -
  have d: "distinct [COL_validationStatus default_COL, COL_sendStatus default_COL, COL_sentAt default_COL,
             COL_send default_COL]"
    by (simp add: default_COL_def)
  from updateRow_partial_patch [of sample_world "[]" "\<lparr>validationStatus = None, sendStatus = Some (js ''Sent''), sentAt = Some (js ''2024''),
              send = Some False\<rparr>" init default_COL] d
  show ?thesis by simp
qed

lemma replace_g_literal:
  "0x24 \<notin> set repl \<Longrightarrow> replace_g pat repl s = replace_literal pat repl s 0"
  by (simp add: replace_g_def replace_from_literal)

text \<open>
  C4.  The recipient name is handed to \<^verbatim>\<open>replace\<close> as a replacement string, in which a
  dollar sign is special: for the name \<^verbatim>\<open>A$$B\<close> the template \<^verbatim>\<open>Hi {{name}}\<close> becomes
  \<^verbatim>\<open>Hi A$B\<close>, where replacing the placeholder by the name gives \<^verbatim>\<open>Hi A$$B\<close>.  For the
  name \<^verbatim>\<open>Ann\<close> the template \<^verbatim>\<open>Hi {{Name}}, {{name}}!\<close> becomes \<^verbatim>\<open>Hi Ann, Ann!\<close>.
\<close>

theorem name_placeholder_dollar_sign:
  "replace_g name_pattern (to_string (PStr (js ''A$$B''))) (js ''Hi {{name}}'') = js ''Hi A$B'' \<and>
   replace_literal name_pattern (js ''A$$B'') (js ''Hi {{name}}'') 0 = js ''Hi A$$B'' \<and>
   replace_g name_pattern (to_string (PStr (js ''Ann''))) (js ''Hi {{Name}}, {{name}}!'') = js ''Hi Ann, Ann!''"
  by (simp add: replace_g_def name_pattern_def ci_def ascii_upper_def js_def)


section \<open>Steps that do not send\<close>

lemma quiet_refl: "quiet st st"
  by (simp add: quiet_def)

lemma quiet_trans: "quiet a b \<Longrightarrow> quiet b c \<Longrightarrow> quiet a c"
  unfolding quiet_def by (elim conjE exE) (rule conjI, simp, auto)

lemma quiet_emit: "\<not> is_send_attempt e \<Longrightarrow> quiet st (emit_ev e st)"
  by (simp add: quiet_def emit_ev_def)

lemma validateEmail_quiet: "validateEmail w email st = (v, st') \<Longrightarrow> quiet st st'"
  by (auto simp: validateEmail_def Let_def quiet_refl quiet_emit
           split: if_splits list.splits sum.splits option.splits)

lemma list_blocks_quiet_snd:
  assumes "list_blocks w0 t0 c0 bs0 st0 = Some y0"
  shows "quiet st0 (snd y0)"
proof (rule list_blocks.raw_induct [where P = "\<lambda>w t c bs st y. quiet st (snd y)", OF _ assms])
  fix f :: "world \<Rightarrow> propval \<Rightarrow> jsstring option \<Rightarrow> block list \<Rightarrow> state
            \<Rightarrow> ((js_error + block list) \<times> state) option"
  fix w t c bs and st :: state and y
  assume IH: "\<And>w t c bs st y. f w t c bs st = Some y \<Longrightarrow> quiet st (snd y)"
  assume body: "(let st = emit_ev (BlocksList t c) st
      in case blocks_children_list w (trace st) of Inl e \<Rightarrow> Some (Inl e, st)
         | Inr res \<Rightarrow>
             let blocks = bs @ results res;
                 cursor = if has_more res then next_cursor res else None
             in if truthy cursor
                then f w t cursor blocks st
                else Some (Inr blocks, st)) = Some y"
  have q: "quiet st (emit_ev (BlocksList t c) st)" by (simp add: quiet_emit)
  show "quiet st (snd y)"
  proof (cases "blocks_children_list w (trace (emit_ev (BlocksList t c) st))")
    case (Inl e)
    with body q show ?thesis by (auto simp: Let_def)
  next
    case (Inr res)
    show ?thesis
    proof (cases "truthy (if has_more res then next_cursor res else None)")
      case True
      with Inr body
      have "f w t (if has_more res then next_cursor res else None) (bs @ results res)
              (emit_ev (BlocksList t c) st) = Some y"
        by (simp add: Let_def)
      from IH [OF this] q show ?thesis by (rule quiet_trans [rotated])
    next
      case False
      with Inr body q show ?thesis by (auto simp: Let_def)
    qed
  qed
qed

lemma list_blocks_quiet:
  "list_blocks w t c bs st = Some (r, st') \<Longrightarrow> quiet st st'"
  using list_blocks_quiet_snd [of w t c bs st "(r, st')"] by simp

lemma getTemplate_quiet:
  "getTemplate w t st = Some (r, st') \<Longrightarrow> quiet st st'"
proof -
  assume a: "getTemplate w t st = Some (r, st')"
  have q: "quiet st (emit_ev (PagesRetrieve t) st)" by (simp add: quiet_emit)
  from a show ?thesis
    by (auto simp: getTemplate_def Let_def split: sum.splits option.splits prod.splits
             intro: q quiet_trans [OF q list_blocks_quiet])
qed


section \<open>The counters\<close>

lemma updateRow_state:
  "snd (updateRow w pid u st) = emit_ev (PagesUpdate pid (updateRow_properties (col w) u)) st"
  by (simp add: updateRow_def Let_def)

lemma emit_counts [simp]:
  "sentCount (emit_ev e st) = sentCount st" "failedCount (emit_ev e st) = failedCount st"
  by (simp_all add: emit_ev_def)

lemma log_counts [simp]:
  "sentCount (log a b c st) = sentCount st" "failedCount (log a b c st) = failedCount st"
  by (simp_all add: log_def)

lemma updateRow_counts [simp]:
  "sentCount (snd (updateRow w pid u st)) = sentCount st"
  "failedCount (snd (updateRow w pid u st)) = failedCount st"
  by (simp_all add: updateRow_state)

lemma getGraphToken_counts [simp]:
  "sentCount (snd (getGraphToken w st)) = sentCount st"
  "failedCount (snd (getGraphToken w st)) = failedCount st"
  by (simp_all add: getGraphToken_def Let_def emit_ev_def split: sum.splits option.splits)

lemma sendEmailViaGraph_counts [simp]:
  "sentCount (snd (sendEmailViaGraph w e n s h st)) = sentCount st"
  "failedCount (snd (sendEmailViaGraph w e n s h st)) = failedCount st"
proof -
  obtain r st1 where g: "getGraphToken w st = (r, st1)" by (cases "getGraphToken w st")
  have c: "sentCount st1 = sentCount st" "failedCount st1 = failedCount st"
    using getGraphToken_counts [of w st] g by simp_all
  show "sentCount (snd (sendEmailViaGraph w e n s h st)) = sentCount st"
    using g c by (simp add: sendEmailViaGraph_def Let_def split: sum.splits)
  show "failedCount (snd (sendEmailViaGraph w e n s h st)) = failedCount st"
    using g c by (simp add: sendEmailViaGraph_def Let_def split: sum.splits)
qed

lemma fail_row_step:
  "sentCount st1 = sentCount st \<Longrightarrow> failedCount st1 = failedCount st \<Longrightarrow>
   row_step st (fail_row w pid u st1)"
proof -
  assume a: "sentCount st1 = sentCount st" "failedCount st1 = failedCount st"
  obtain r st2 where u: "updateRow w pid u st1 = (r, st2)" by (cases "updateRow w pid u st1")
  have "sentCount st2 = sentCount st" "failedCount st2 = failedCount st"
    using updateRow_counts [of w pid u st1] u a by simp_all
  then show ?thesis using u by (cases r) (simp_all add: fail_row_def row_step_def)
qed

lemma send_failed_step:
  "sentCount st1 = sentCount st \<Longrightarrow> failedCount st1 = failedCount st \<Longrightarrow>
   row_step st (send_failed w pid email err st1)"
  unfolding send_failed_def by (rule fail_row_step) simp_all

lemma send_row_step:
  assumes "sentCount st1 = sentCount st" "failedCount st1 = failedCount st"
  shows "row_step st (send_row w pid email name subj body st1)"
proof -
  obtain r st2 where s: "sendEmailViaGraph w email name subj body st1 = (r, st2)"
    by (cases "sendEmailViaGraph w email name subj body st1")
  have c2: "sentCount st2 = sentCount st" "failedCount st2 = failedCount st"
    using sendEmailViaGraph_counts [of w email name subj body st1] s assms by simp_all
  show ?thesis
  proof (cases r)
    case (Some err)
    with s c2 show ?thesis by (simp add: send_row_def send_failed_step)
  next
    case None
    let ?st3 = "emit_ev NewDate (log (js ''success'') (Some (to_string email))
                      (js ''Sent to '' @ to_string name @ js '' '' @ [0x2014] @ js '' \"'' @ subj @ js ''\"'') st2)"
    let ?u = "\<lparr>validationStatus = None, sendStatus = Some (js ''Sent''),
                      sentAt = Some (toISOString w (trace ?st3)), send = Some False\<rparr>"
    obtain r4 st4 where u: "updateRow w pid ?u ?st3 = (r4, st4)" by (cases "updateRow w pid ?u ?st3")
    have "st4 = snd (updateRow w pid ?u ?st3)" by (simp only: u snd_conv)
    then have c4: "sentCount st4 = sentCount st" "failedCount st4 = failedCount st"
      using c2 by simp_all
    show ?thesis
    proof (cases r4)
      case (Some err)
      with None s u c4 show ?thesis by (simp add: send_row_def Let_def send_failed_step)
    next
      case n4: None
      with None s u c4 show ?thesis by (simp add: send_row_def Let_def row_step_def)
    qed
  qed
qed


lemma quiet_counts: "quiet st st' \<Longrightarrow> sentCount st' = sentCount st \<and> failedCount st' = failedCount st"
  by (simp add: quiet_def)

lemma processRow_step:
  assumes "processRow w pg st = Some r"
  shows "row_step st r"
proof -
  let ?email = "js_or (getProp pg (COL_email (col w))) (PStr [])"
  let ?name = "js_or (getProp pg (COL_name (col w))) (PStr (js ''there''))"
  let ?tid = "getProp pg (COL_template (col w))"
  show ?thesis
  proof (cases "truthy_val ?email")
    case False
    with assms show ?thesis
      by (auto simp: processRow_def Let_def intro!: fail_row_step)
  next
    case e: True
    show ?thesis
    proof (cases "truthy_val ?tid")
      case False
      with e assms show ?thesis
        by (auto simp: processRow_def Let_def intro!: fail_row_step)
    next
      case t: True
      obtain v st1 where v: "validateEmail w (to_string ?email) st = (v, st1)"
        by (cases "validateEmail w (to_string ?email) st")
      from validateEmail_quiet [OF v] have c1: "sentCount st1 = sentCount st" "failedCount st1 = failedCount st"
        by (simp_all add: quiet_counts)
      show ?thesis
      proof (cases v)
        case (Invalid reason)
        with e t v assms c1 show ?thesis
          by (auto simp: processRow_def Let_def intro!: fail_row_step)
      next
        case Valid
        show ?thesis
        proof (cases "getTemplate w ?tid st1")
          case None
          with e t v Valid assms show ?thesis by (simp add: processRow_def Let_def)
        next
          case (Some a)
          obtain res st2 where a: "a = (res, st2)" by (cases a)
          from getTemplate_quiet [of w ?tid st1 res st2] Some a c1
          have c2: "sentCount st2 = sentCount st" "failedCount st2 = failedCount st"
            by (simp_all add: quiet_counts)
          show ?thesis
          proof (cases res)
            case (Inl err)
            with e t v Valid Some a assms c2 show ?thesis
              by (auto simp: processRow_def Let_def intro!: fail_row_step)
          next
            case (Inr tpl)
            let ?u = "\<lparr>validationStatus = Some ([0x2705] @ js '' Passed''),
                                 sendStatus = Some (js ''Sending...''), sentAt = None, send = None\<rparr>"
            obtain r3 st3 where u: "updateRow w (page_id pg) ?u st2 = (r3, st3)"
              by (cases "updateRow w (page_id pg) ?u st2")
            have "st3 = snd (updateRow w (page_id pg) ?u st2)" by (simp only: u snd_conv)
            then have c3: "sentCount st3 = sentCount st" "failedCount st3 = failedCount st"
              using c2 by simp_all
            show ?thesis
            proof (cases r3)
              case (Some err)
              with e t v Valid \<open>getTemplate w ?tid st1 = Some a\<close> a Inr u assms c3 show ?thesis
                by (auto simp: processRow_def Let_def row_step_def)
            next
              case None
              with e t v Valid \<open>getTemplate w ?tid st1 = Some a\<close> a Inr u assms
              have "r = send_row w (page_id pg) ?email ?name
                          (replace_g name_pattern (to_string ?name) (subject tpl))
                          (replace_g name_pattern (to_string ?name) (html tpl)) st3"
                by (auto simp: processRow_def Let_def)
              with c3 show ?thesis by (simp add: send_row_step)
            qed
          qed
        qed
      qed
    qed
  qed
qed

lemma rows_loop_counts:
  "rows_loop w rows st = Some (r, st') \<Longrightarrow>
   (case r of None \<Rightarrow> sentCount st' + failedCount st' = sentCount st + failedCount st + length rows
            | Some e \<Rightarrow> sentCount st' + failedCount st' < sentCount st + failedCount st + length rows)"
proof (induction rows arbitrary: st)
  case Nil
  then show ?case by simp
next
  case (Cons row rows)
  from Cons.prems obtain r1 st1 where p: "processRow w row st = Some (r1, st1)"
    by (cases "processRow w row st") auto
  from processRow_step [OF p] have rs: "row_step st (r1, st1)" .
  show ?case
  proof (cases r1)
    case (Some e)
    with p Cons.prems rs show ?thesis by (auto simp: row_step_def)
  next
    case None
    let ?st2 = "if rows \<noteq> [] then emit_ev (Sleep (SEND_DELAY_MS w)) st1 else st1"
    from None p Cons.prems have "rows_loop w rows ?st2 = Some (r, st')" by simp
    from Cons.IH [OF this] None rs show ?thesis
      by (auto simp: row_step_def split: option.splits if_splits)
  qed
qed


end
